theory Spec2Isabelle
  imports Main "HOL-Library.Word"
begin

section \<open>The USDCFacilitator contract (contract/USDCFacilitatorBulk.sol)\<close>

text \<open>
  Solidity value types are machine words: \<open>address\<close> is 160 bits, \<open>uint256\<close> and
  \<open>bytes32\<close> are 256 bits, \<open>uint8\<close> is 8 bits. Comparison of words is unsigned, as in
  Solidity. The contract is compiled with \<open>pragma solidity ^0.8.20\<close>, so \<open>+\<close> on
  \<open>uint256\<close> is checked: an overflow aborts the call with \<open>Panic(0x11)\<close>.
\<close>

type_synonym address = "160 word"
type_synonym uint256 = "256 word"
type_synonym bytes32 = "256 word"
type_synonym uint8 = "8 word"
type_synonym byte = "8 word"

text \<open>\<open>struct Recipient { address to; uint256 amount; }\<close>\<close>

record Recipient =
  to :: address
  amount :: uint256

text \<open>
  The custom errors of the contract, in the order of their declaration. \<open>Panic\<close> is the
  compiler's arithmetic-overflow panic; \<open>LedgerReverted\<close> is a revert of the token
  contract in a call that is not wrapped in \<open>try\<close>/\<open>catch\<close> and therefore bubbles up.
\<close>

datatype error =
    InvalidPermitSignature
  | PermitAlreadyUsed
  | PermitExpired
  | InsufficientBalance
  | InvalidFeeAmount
  | InvalidRecipient
  | ZeroAmount
  | InvalidFeeCollector
  | EmptyRecipientList
  | InvalidRecipientAmount
  | Panic
  | LedgerReverted

datatype event =
    FacilitationExecuted address address uint256 uint256
  | BulkFacilitationExecuted address uint256 uint256 uint256
  | FeeCollectorUpdated address address

text \<open>
  \<open>interface IUSDC\<close>: the token is another contract, known to this one only through its
  interface, so it is a parameter: a ledger state \<open>'tok\<close> and the four functions the
  contract calls. A state-changing call returns \<open>None\<close> when the token reverts; the
  two views are taken to return.
  \<open>permit\<close> receives the block timestamp (the token compares it with the deadline);
  \<open>transferFrom\<close> receives its \<open>msg.sender\<close>, which is this contract, and returns the
  \<open>bool\<close> of the interface. \<open>decimals\<close> is used by no claim and left out.
\<close>

record 'tok IUSDC =
  permit :: "'tok \<Rightarrow> uint256 \<Rightarrow> address \<Rightarrow> address \<Rightarrow> uint256 \<Rightarrow> uint256
               \<Rightarrow> uint8 \<Rightarrow> bytes32 \<Rightarrow> bytes32 \<Rightarrow> 'tok option"
  transferFrom :: "'tok \<Rightarrow> address \<Rightarrow> address \<Rightarrow> address \<Rightarrow> uint256 \<Rightarrow> (bool \<times> 'tok) option"
  balanceOf :: "'tok \<Rightarrow> address \<Rightarrow> uint256"
  nonces :: "'tok \<Rightarrow> address \<Rightarrow> uint256"

text \<open>
  What is fixed at deployment: the immutable \<open>usdc\<close>, the contract's own address
  \<open>address(this)\<close>, and the built-in \<open>keccak256\<close>, a parameter as well.
\<close>

record 'tok env =
  usdc :: "'tok IUSDC"
  this :: address
  keccak256 :: "byte list \<Rightarrow> bytes32"

text \<open>
  The storage of the contract (\<open>usedPermits\<close>, \<open>feeCollector\<close>), the state of the token
  ledger it operates on, and the event log.
\<close>

record 'tok state =
  usedPermits :: "bytes32 \<Rightarrow> bool"
  feeCollector :: address
  ledger :: 'tok
  events :: "event list"

subsection \<open>\<open>abi.encodePacked\<close>\<close>

text \<open>
  Packed encoding of static types: every value is written big-endian in exactly the width
  of its type (20 bytes for an address, 32 for \<open>uint256\<close> and \<open>bytes32\<close>, 1 for
  \<open>uint8\<close>), without padding, and the pieces are concatenated.
\<close>

fun be_bytes :: "nat \<Rightarrow> 'a::len word \<Rightarrow> byte list" where
  "be_bytes 0 w = []"
| "be_bytes (Suc n) w = be_bytes n (drop_bit 8 w) @ [ucast w]"

definition packed_address :: "address \<Rightarrow> byte list" where
  "packed_address a = be_bytes 20 a"

definition packed_uint256 :: "uint256 \<Rightarrow> byte list" where
  "packed_uint256 x = be_bytes 32 x"

definition packed_bytes32 :: "bytes32 \<Rightarrow> byte list" where
  "packed_bytes32 x = be_bytes 32 x"

definition packed_uint8 :: "uint8 \<Rightarrow> byte list" where
  "packed_uint8 x = [x]"

subsection \<open>The fingerprints\<close>

text \<open>
  \<open>calculatePermitHash\<close>, which is also the expression inlined in
  \<open>facilitateTransferWithPermit\<close>.
\<close>

definition calculatePermitHash ::
  "'tok env \<Rightarrow> address \<Rightarrow> uint256 \<Rightarrow> uint256 \<Rightarrow> uint8 \<Rightarrow> bytes32 \<Rightarrow> bytes32 \<Rightarrow> bytes32" where
  "calculatePermitHash E owner value deadline v r s =
     keccak256 E (packed_address owner @ packed_address (this E) @ packed_uint256 value
       @ packed_uint256 deadline @ packed_uint8 v @ packed_bytes32 r @ packed_bytes32 s)"

text \<open>The expression inlined in \<open>facilitateTransferWithNonStandardPermit\<close>.\<close>

definition nonStandardPermitHash ::
  "'tok env \<Rightarrow> address \<Rightarrow> uint256 \<Rightarrow> uint256 \<Rightarrow> uint256 \<Rightarrow> uint8 \<Rightarrow> bytes32 \<Rightarrow> bytes32
     \<Rightarrow> bytes32" where
  "nonStandardPermitHash E owner value deadline nonce v r s =
     keccak256 E (packed_address owner @ packed_address (this E) @ packed_uint256 value
       @ packed_uint256 deadline @ packed_uint256 nonce @ packed_uint8 v
       @ packed_bytes32 r @ packed_bytes32 s)"

text \<open>The expression inlined in \<open>facilitateBulkTransferWithNonStandardPermit\<close>.\<close>

definition nonStandardBulkPermitHash ::
  "'tok env \<Rightarrow> address \<Rightarrow> uint256 \<Rightarrow> uint256 \<Rightarrow> uint256 \<Rightarrow> uint256 \<Rightarrow> bytes32" where
  "nonStandardBulkPermitHash E owner totalValue deadline nonce recipientCount =
     keccak256 E (packed_address owner @ packed_address (this E) @ packed_uint256 totalValue
       @ packed_uint256 deadline @ packed_uint256 nonce @ packed_uint256 recipientCount)"

text \<open>\<open>calculateBulkPermitHash\<close>, a view function that no transfer function calls.\<close>

definition calculateBulkPermitHash ::
  "'tok env \<Rightarrow> address \<Rightarrow> uint256 \<Rightarrow> uint256 \<Rightarrow> uint256 \<Rightarrow> bytes32" where
  "calculateBulkPermitHash E owner totalValue deadline recipientCount =
     keccak256 E (packed_address owner @ packed_address (this E) @ packed_uint256 totalValue
       @ packed_uint256 deadline @ packed_uint256 recipientCount)"

definition isPermitUsed :: "'tok state \<Rightarrow> bytes32 \<Rightarrow> bool" where
  "isPermitUsed \<sigma> permitHash = usedPermits \<sigma> permitHash"

subsection \<open>Checked arithmetic and the two loops\<close>

definition checked_add :: "uint256 \<Rightarrow> uint256 \<Rightarrow> error + uint256" where
  "checked_add a b = (if unat a + unat b < 2 ^ 256 then Inr (a + b) else Inl Panic)"

text \<open>
  The validation loop of the two bulk functions:
  \<^verbatim>\<open>for (i = 0; i < recipients.length; i++) {
    if (recipients[i].to == address(0)) revert InvalidRecipient();
    if (recipients[i].amount == 0) revert InvalidRecipientAmount();
    totalRecipientAmount += recipients[i].amount; }\<close>
  The second argument is \<open>totalRecipientAmount\<close> so far.
\<close>

fun sum_recipients :: "Recipient list \<Rightarrow> uint256 \<Rightarrow> error + uint256" where
  "sum_recipients [] acc = Inr acc"
| "sum_recipients (x # xs) acc =
     (if to x = 0 then Inl InvalidRecipient
      else if amount x = 0 then Inl InvalidRecipientAmount
      else case checked_add acc (amount x) of
             Inl e \<Rightarrow> Inl e
           | Inr acc' \<Rightarrow> sum_recipients xs acc')"

text \<open>
  The payout loop:
  \<^verbatim>\<open>for (i = 0; i < recipients.length; i++)
    usdc.transferFrom(owner, recipients[i].to, recipients[i].amount);\<close>
  The \<open>bool\<close> that \<open>transferFrom\<close> returns is not looked at; a revert of the token ends
  the call.
\<close>

fun transfer_each :: "'tok env \<Rightarrow> address \<Rightarrow> Recipient list \<Rightarrow> 'tok \<Rightarrow> error + 'tok" where
  "transfer_each E owner [] t = Inr t"
| "transfer_each E owner (x # xs) t =
     (case transferFrom (usdc E) t (this E) owner (to x) (amount x) of
        None \<Rightarrow> Inl LedgerReverted
      | Some (ok, t') \<Rightarrow> transfer_each E owner xs t')"

text \<open>
  \<^verbatim>\<open>if (feeAmount > 0) { usdc.transferFrom(owner, feeCollector, feeAmount); }\<close>
\<close>

definition transfer_fee :: "'tok env \<Rightarrow> address \<Rightarrow> address \<Rightarrow> uint256 \<Rightarrow> 'tok \<Rightarrow> error + 'tok" where
  "transfer_fee E owner collector feeAmount t =
     (if feeAmount > 0
      then (case transferFrom (usdc E) t (this E) owner collector feeAmount of
              None \<Rightarrow> Inl LedgerReverted
            | Some (ok, t') \<Rightarrow> Inr t')
      else Inr t)"

text \<open>
  \<^verbatim>\<open>try usdc.permit(owner, address(this), value, deadline, v, r, s) {}
  catch { revert InvalidPermitSignature(); }\<close>
\<close>

definition try_permit ::
  "'tok env \<Rightarrow> uint256 \<Rightarrow> address \<Rightarrow> uint256 \<Rightarrow> uint256 \<Rightarrow> uint8 \<Rightarrow> bytes32 \<Rightarrow> bytes32 \<Rightarrow> 'tok
     \<Rightarrow> error + 'tok" where
  "try_permit E now owner value deadline v r s t =
     (case permit (usdc E) t now owner (this E) value deadline v r s of
        None \<Rightarrow> Inl InvalidPermitSignature
      | Some t' \<Rightarrow> Inr t')"

subsection \<open>The four transfer functions\<close>

text \<open>
  Each function is the body of the Solidity function, statement by statement. The result
  is \<open>Inl e\<close> when the call reverts with \<open>e\<close> and \<open>Inr \<sigma>'\<close> when it returns, with the
  state it leaves. \<open>now\<close> is \<open>block.timestamp\<close>. The modifier \<open>nonReentrant\<close> only
  guards against a call back into the contract while a call is running; the token is
  modelled as a ledger that makes no calls of its own, so the guard never fires.
\<close>

definition facilitateTransferWithPermit ::
  "'tok env \<Rightarrow> uint256 \<Rightarrow> address \<Rightarrow> address \<Rightarrow> uint256 \<Rightarrow> uint256 \<Rightarrow> uint8 \<Rightarrow> bytes32
     \<Rightarrow> bytes32 \<Rightarrow> uint256 \<Rightarrow> 'tok state \<Rightarrow> error + 'tok state" where
  "facilitateTransferWithPermit E now owner to' value deadline v r s feeAmount \<sigma> =
     (if owner = 0 \<or> to' = 0 then Inl InvalidRecipient
      else if value = 0 then Inl ZeroAmount
      else if feeAmount \<ge> value then Inl InvalidFeeAmount
      else if now > deadline then Inl PermitExpired
      else
        let permitHash = keccak256 E (packed_address owner @ packed_address (this E)
              @ packed_uint256 value @ packed_uint256 deadline @ packed_uint8 v
              @ packed_bytes32 r @ packed_bytes32 s)
        in
        if usedPermits \<sigma> permitHash then Inl PermitAlreadyUsed
        else
          let \<sigma>1 = \<sigma>\<lparr>usedPermits := (usedPermits \<sigma>)(permitHash := True)\<rparr> in
          if balanceOf (usdc E) (ledger \<sigma>1) owner < value then Inl InsufficientBalance
          else
            case try_permit E now owner value deadline v r s (ledger \<sigma>1) of
              Inl e \<Rightarrow> Inl e
            | Inr t1 \<Rightarrow>
                let amountToRecipient = value - feeAmount in
                case transfer_fee E owner (feeCollector \<sigma>1) feeAmount t1 of
                  Inl e \<Rightarrow> Inl e
                | Inr t2 \<Rightarrow>
                    case transferFrom (usdc E) t2 (this E) owner to' amountToRecipient of
                      None \<Rightarrow> Inl LedgerReverted
                    | Some (ok, t3) \<Rightarrow>
                        Inr (\<sigma>1\<lparr>ledger := t3,
                                events := events \<sigma>1 @
                                  [FacilitationExecuted owner to' amountToRecipient feeAmount]\<rparr>))"

definition facilitateBulkTransferWithPermit ::
  "'tok env \<Rightarrow> uint256 \<Rightarrow> address \<Rightarrow> Recipient list \<Rightarrow> uint256 \<Rightarrow> uint256 \<Rightarrow> uint8
     \<Rightarrow> bytes32 \<Rightarrow> bytes32 \<Rightarrow> uint256 \<Rightarrow> 'tok state \<Rightarrow> error + 'tok state" where
  "facilitateBulkTransferWithPermit E now owner recipients totalValue deadline v r s feeAmount \<sigma> =
     (if owner = 0 then Inl InvalidRecipient
      else if length recipients = 0 then Inl EmptyRecipientList
      else if totalValue = 0 then Inl ZeroAmount
      else if feeAmount \<ge> totalValue then Inl InvalidFeeAmount
      else if now > deadline then Inl PermitExpired
      else
        case sum_recipients recipients 0 of
          Inl e \<Rightarrow> Inl e
        | Inr totalRecipientAmount \<Rightarrow>
            case checked_add totalRecipientAmount feeAmount of
              Inl e \<Rightarrow> Inl e
            | Inr needed \<Rightarrow>
                if totalValue \<noteq> needed then Inl InvalidFeeAmount
                else if balanceOf (usdc E) (ledger \<sigma>) owner < totalValue
                then Inl InsufficientBalance
                else
                  case try_permit E now owner totalValue deadline v r s (ledger \<sigma>) of
                    Inl e \<Rightarrow> Inl e
                  | Inr t1 \<Rightarrow>
                      case transfer_fee E owner (feeCollector \<sigma>) feeAmount t1 of
                        Inl e \<Rightarrow> Inl e
                      | Inr t2 \<Rightarrow>
                          case transfer_each E owner recipients t2 of
                            Inl e \<Rightarrow> Inl e
                          | Inr t3 \<Rightarrow>
                              Inr (\<sigma>\<lparr>ledger := t3,
                                     events := events \<sigma> @
                                       [BulkFacilitationExecuted owner
                                          (of_nat (length recipients))
                                          totalRecipientAmount feeAmount]\<rparr>))"

definition facilitateTransferWithNonStandardPermit ::
  "'tok env \<Rightarrow> uint256 \<Rightarrow> address \<Rightarrow> address \<Rightarrow> uint256 \<Rightarrow> uint256 \<Rightarrow> uint8 \<Rightarrow> bytes32
     \<Rightarrow> bytes32 \<Rightarrow> uint256 \<Rightarrow> 'tok state \<Rightarrow> error + 'tok state" where
  "facilitateTransferWithNonStandardPermit E now owner to' value deadline v r s feeAmount \<sigma> =
     (if owner = 0 \<or> to' = 0 then Inl InvalidRecipient
      else if value = 0 then Inl ZeroAmount
      else if feeAmount \<ge> value then Inl InvalidFeeAmount
      else if now > deadline then Inl PermitExpired
      else
        let nonce = nonces (usdc E) (ledger \<sigma>) owner;
            permitHash = keccak256 E (packed_address owner @ packed_address (this E)
              @ packed_uint256 value @ packed_uint256 deadline @ packed_uint256 nonce
              @ packed_uint8 v @ packed_bytes32 r @ packed_bytes32 s)
        in
        if usedPermits \<sigma> permitHash then Inl PermitAlreadyUsed
        else
          let \<sigma>1 = \<sigma>\<lparr>usedPermits := (usedPermits \<sigma>)(permitHash := True)\<rparr> in
          if balanceOf (usdc E) (ledger \<sigma>1) owner < value then Inl InsufficientBalance
          else
            case try_permit E now owner value deadline v r s (ledger \<sigma>1) of
              Inl e \<Rightarrow> Inl e
            | Inr t1 \<Rightarrow>
                let amountToRecipient = value - feeAmount in
                case transfer_fee E owner (feeCollector \<sigma>1) feeAmount t1 of
                  Inl e \<Rightarrow> Inl e
                | Inr t2 \<Rightarrow>
                    case transferFrom (usdc E) t2 (this E) owner to' amountToRecipient of
                      None \<Rightarrow> Inl LedgerReverted
                    | Some (ok, t3) \<Rightarrow>
                        Inr (\<sigma>1\<lparr>ledger := t3,
                                events := events \<sigma>1 @
                                  [FacilitationExecuted owner to' amountToRecipient feeAmount]\<rparr>))"

definition facilitateBulkTransferWithNonStandardPermit ::
  "'tok env \<Rightarrow> uint256 \<Rightarrow> address \<Rightarrow> Recipient list \<Rightarrow> uint256 \<Rightarrow> uint256 \<Rightarrow> uint8
     \<Rightarrow> bytes32 \<Rightarrow> bytes32 \<Rightarrow> uint256 \<Rightarrow> 'tok state \<Rightarrow> error + 'tok state" where
  "facilitateBulkTransferWithNonStandardPermit E now owner recipients totalValue deadline v r s
       feeAmount \<sigma> =
     (if owner = 0 then Inl InvalidRecipient
      else if length recipients = 0 then Inl EmptyRecipientList
      else if totalValue = 0 then Inl ZeroAmount
      else if feeAmount \<ge> totalValue then Inl InvalidFeeAmount
      else if now > deadline then Inl PermitExpired
      else
        case sum_recipients recipients 0 of
          Inl e \<Rightarrow> Inl e
        | Inr totalRecipientAmount \<Rightarrow>
            case checked_add totalRecipientAmount feeAmount of
              Inl e \<Rightarrow> Inl e
            | Inr needed \<Rightarrow>
                if totalValue \<noteq> needed then Inl InvalidFeeAmount
                else
                  let nonce = nonces (usdc E) (ledger \<sigma>) owner;
                      permitHash = keccak256 E (packed_address owner @ packed_address (this E)
                        @ packed_uint256 totalValue @ packed_uint256 deadline
                        @ packed_uint256 nonce
                        @ packed_uint256 (of_nat (length recipients)))
                  in
                  if usedPermits \<sigma> permitHash then Inl PermitAlreadyUsed
                  else
                    let \<sigma>1 = \<sigma>\<lparr>usedPermits := (usedPermits \<sigma>)(permitHash := True)\<rparr> in
                    if balanceOf (usdc E) (ledger \<sigma>1) owner < totalValue
                    then Inl InsufficientBalance
                    else
                      case try_permit E now owner totalValue deadline v r s (ledger \<sigma>1) of
                        Inl e \<Rightarrow> Inl e
                      | Inr t1 \<Rightarrow>
                          case transfer_fee E owner (feeCollector \<sigma>1) feeAmount t1 of
                            Inl e \<Rightarrow> Inl e
                          | Inr t2 \<Rightarrow>
                              case transfer_each E owner recipients t2 of
                                Inl e \<Rightarrow> Inl e
                              | Inr t3 \<Rightarrow>
                                  Inr (\<sigma>1\<lparr>ledger := t3,
                                         events := events \<sigma>1 @
                                           [BulkFacilitationExecuted owner
                                              (of_nat (length recipients))
                                              totalRecipientAmount feeAmount]\<rparr>))"

subsection \<open>Transactions\<close>

text \<open>
  A \<open>revert\<close> undoes every state change of the call: the storage writes made before it
  (among them \<open>usedPermits[permitHash] = true\<close>), the token's changes and the events.
  So the state after a call that reverts is the state before it, and the caller sees
  only the error.
\<close>

definition transact :: "('s \<Rightarrow> error + 's) \<Rightarrow> 's \<Rightarrow> error option \<times> 's" where
  "transact call \<sigma> = (case call \<sigma> of Inl e \<Rightarrow> (Some e, \<sigma>) | Inr \<sigma>' \<Rightarrow> (None, \<sigma>'))"

section \<open>Notions used to state the properties\<close>

text \<open>The sum of the recipient amounts as a natural number, without wrap-around.\<close>

definition sum_amounts :: "Recipient list \<Rightarrow> nat" where
  "sum_amounts recipients = sum_list (map (\<lambda>x. unat (amount x)) recipients)"

text \<open>
  A single request passes the checks that precede the deadline check: owner and
  recipient are not the null address, the value is not zero, the fee is below the value.
\<close>

definition single_inputs_ok :: "address \<Rightarrow> address \<Rightarrow> uint256 \<Rightarrow> uint256 \<Rightarrow> bool" where
  "single_inputs_ok owner to' value feeAmount \<longleftrightarrow>
     owner \<noteq> 0 \<and> to' \<noteq> 0 \<and> value \<noteq> 0 \<and> feeAmount < value"

text \<open>
  A bulk request passes the checks that precede the deadline check, and its recipients
  pass the validation loop: none is the null address, no amount is zero, and the amounts
  and the fee add up without overflow.
\<close>

definition bulk_inputs_ok :: "address \<Rightarrow> Recipient list \<Rightarrow> uint256 \<Rightarrow> uint256 \<Rightarrow> bool" where
  "bulk_inputs_ok owner recipients totalValue feeAmount \<longleftrightarrow>
     owner \<noteq> 0 \<and> recipients \<noteq> [] \<and> totalValue \<noteq> 0 \<and> feeAmount < totalValue \<and>
     list_all (\<lambda>x. to x \<noteq> 0 \<and> amount x \<noteq> 0) recipients \<and>
     sum_amounts recipients + unat feeAmount < 2 ^ 256"

text \<open>
  The value movements of a transfer as the specification words them: a list of
  (destination, amount) pairs, each moved from the owner with \<open>transferFrom\<close>, in order;
  the whole fails as soon as one movement is refused by the ledger.
\<close>

fun move_all :: "'tok env \<Rightarrow> address \<Rightarrow> (address \<times> uint256) list \<Rightarrow> 'tok \<Rightarrow> 'tok option" where
  "move_all E owner [] t = Some t"
| "move_all E owner ((dest, amt) # ms) t =
     (case transferFrom (usdc E) t (this E) owner dest amt of
        None \<Rightarrow> None
      | Some (ok, t') \<Rightarrow> move_all E owner ms t')"

text \<open>
  ``Move \<open>feeAmount\<close> to the fee beneficiary (skip if zero), then move
  \<open>totalValue - feeAmount\<close> to the recipient.''
\<close>

definition single_movements :: "address \<Rightarrow> address \<Rightarrow> uint256 \<Rightarrow> uint256 \<Rightarrow> (address \<times> uint256) list" where
  "single_movements collector to' value feeAmount =
     (if feeAmount = 0 then [] else [(collector, feeAmount)]) @ [(to', value - feeAmount)]"

text \<open>
  ``Move \<open>feeAmount\<close> to the fee beneficiary (skip if zero), then move each recipient's
  exact amount in list order.''
\<close>

definition bulk_movements :: "address \<Rightarrow> Recipient list \<Rightarrow> uint256 \<Rightarrow> (address \<times> uint256) list" where
  "bulk_movements collector recipients feeAmount =
     (if feeAmount = 0 then [] else [(collector, feeAmount)])
       @ map (\<lambda>x. (to x, amount x)) recipients"

text \<open>
  The byte string that \<open>calculatePermitHash\<close> and \<open>facilitateTransferWithPermit\<close> hash,
  and what it means that \<open>keccak256\<close> does not collide on two given byte strings.
\<close>

definition permitPacked ::
  "'tok env \<Rightarrow> address \<Rightarrow> uint256 \<Rightarrow> uint256 \<Rightarrow> uint8 \<Rightarrow> bytes32 \<Rightarrow> bytes32 \<Rightarrow> byte list" where
  "permitPacked E owner value deadline v r s =
     packed_address owner @ packed_address (this E) @ packed_uint256 value
       @ packed_uint256 deadline @ packed_uint8 v @ packed_bytes32 r @ packed_bytes32 s"

definition collision_free :: "'tok env \<Rightarrow> byte list \<Rightarrow> byte list \<Rightarrow> bool" where
  "collision_free E p q \<longleftrightarrow> (keccak256 E p = keccak256 E q \<longrightarrow> p = q)"

text \<open>
  A bulk call got past input validation: it returned, or it was stopped by the replay
  registry, the balance check, the token's \<open>permit\<close> or a transfer.
\<close>

definition passed_validation :: "error + 's \<Rightarrow> bool" where
  "passed_validation res \<longleftrightarrow>
     (case res of
        Inr \<sigma>' \<Rightarrow> True
      | Inl e \<Rightarrow> e = PermitAlreadyUsed \<or> e = InsufficientBalance \<or> e = InvalidPermitSignature
                 \<or> e = LedgerReverted)"

section \<open>A reference ledger\<close>

text \<open>
  To run the contract on concrete requests the interface needs an instance. This one is
  a plain ERC-20 ledger with an EIP-2612 style \<open>permit\<close>: balances, allowances and one
  counter per holder. Signature recovery is replaced by a fixed function of the signed
  fields, so that a signature is accepted exactly when it is the one that function gives
  for the owner's current counter. It is used only to evaluate the contract on examples;
  the general theorems hold for every instance of the interface.
\<close>

record ref_ledger =
  balances :: "address \<Rightarrow> uint256"
  allowances :: "address \<Rightarrow> address \<Rightarrow> uint256"
  counters :: "address \<Rightarrow> uint256"

definition ref_sign :: "address \<Rightarrow> address \<Rightarrow> uint256 \<Rightarrow> uint256 \<Rightarrow> uint256 \<Rightarrow> uint8 \<times> bytes32 \<times> bytes32" where
  "ref_sign owner spender value nonce deadline =
     (27, 3 * ucast owner + ucast spender, 5 * value + 7 * nonce + deadline)"

definition ref_permit ::
  "ref_ledger \<Rightarrow> uint256 \<Rightarrow> address \<Rightarrow> address \<Rightarrow> uint256 \<Rightarrow> uint256 \<Rightarrow> uint8 \<Rightarrow> bytes32 \<Rightarrow> bytes32
     \<Rightarrow> ref_ledger option" where
  "ref_permit t now owner spender value deadline v r s =
     (if now > deadline then None
      else if (v, r, s) \<noteq> ref_sign owner spender value (counters t owner) deadline then None
      else Some (t\<lparr>allowances := (allowances t)(owner := (allowances t owner)(spender := value)),
                   counters := (counters t)(owner := counters t owner + 1)\<rparr>))"

definition ref_transferFrom ::
  "ref_ledger \<Rightarrow> address \<Rightarrow> address \<Rightarrow> address \<Rightarrow> uint256 \<Rightarrow> (bool \<times> ref_ledger) option" where
  "ref_transferFrom t sender from dest amt =
     (if balances t from < amt \<or> allowances t from sender < amt then None
      else
        let b1 = (balances t)(from := balances t from - amt);
            b2 = b1(dest := b1 dest + amt)
        in Some (True, t\<lparr>balances := b2,
                          allowances := (allowances t)(from :=
                            (allowances t from)(sender := allowances t from sender - amt))\<rparr>))"

definition ref_usdc :: "ref_ledger IUSDC" where
  "ref_usdc = \<lparr>permit = ref_permit, transferFrom = ref_transferFrom,
                balanceOf = balances, nonces = counters\<rparr>"

text \<open>
  A stand-in for \<open>keccak256\<close> on examples: a shift-and-add checksum of the bytes.
\<close>

definition ref_keccak :: "byte list \<Rightarrow> bytes32" where
  "ref_keccak bs = of_nat (foldl (\<lambda>h b. 2 * h + unat b) 1 bs)"

definition ref_env :: "ref_ledger env" where
  "ref_env = \<lparr>usdc = ref_usdc, this = 0xFAC1, keccak256 = ref_keccak\<rparr>"

text \<open>
  The initial state of the examples: nothing consumed, fee collector \<open>0xFEE\<close>, and one
  holder \<open>0xA11CE\<close> with the given balance.
\<close>

definition ref_state :: "uint256 \<Rightarrow> ref_ledger state" where
  "ref_state bal =
     \<lparr>usedPermits = (\<lambda>h. False), feeCollector = 0xFEE,
      ledger = \<lparr>balances = (\<lambda>a. 0)(0xA11CE := bal), allowances = (\<lambda>a b. 0),
                counters = (\<lambda>a. 0)\<rparr>,
      events = []\<rparr>"

text \<open>The identities and the signature used in the examples.\<close>

abbreviation (input) "alice \<equiv> (0xA11CE :: address)"
abbreviation (input) "bob \<equiv> (0xB0B :: address)"
abbreviation (input) "carol \<equiv> (0xCA7 :: address)"
abbreviation (input) "sig_r \<equiv> (2043947 :: bytes32)"
abbreviation (input) "sig_s \<equiv> (5000200 :: bytes32)"

abbreviation (input) "two_recipients \<equiv> [\<lparr>to = bob, amount = 600000\<rparr>, \<lparr>to = carol, amount = 390000\<rparr>]"

abbreviation (input) "single_call \<equiv> facilitateTransferWithPermit ref_env 100 alice bob 1000000 200 27 sig_r sig_s 10000"
abbreviation (input) "ns_call \<equiv> facilitateTransferWithNonStandardPermit ref_env 100 alice bob 1000000 200 27 sig_r sig_s 10000"
abbreviation (input) "bulk_call \<equiv> facilitateBulkTransferWithPermit ref_env 100 alice two_recipients 1000000 200 27 sig_r sig_s 10000"
abbreviation (input) "bulk_ns_call \<equiv> facilitateBulkTransferWithNonStandardPermit ref_env 100 alice two_recipients 1000000 200 27 sig_r sig_s 10000"

abbreviation (input) "many_recipients \<equiv> replicate 51 \<lparr>to = bob, amount = 10\<rparr>"
abbreviation (input) "many_call \<equiv> facilitateBulkTransferWithPermit ref_env 100 alice many_recipients 520 200 27 sig_r 2800 10"
abbreviation (input) "many_ns_call \<equiv> facilitateBulkTransferWithNonStandardPermit ref_env 100 alice many_recipients 520 200 27 sig_r 2800 10"
abbreviation (input) "other_recipients \<equiv> [\<lparr>to = carol, amount = 1\<rparr>, \<lparr>to = bob, amount = 989999\<rparr>]"
abbreviation (input) "bulk_ns_registry \<equiv> usedPermits (snd (transact bulk_ns_call (ref_state 1000000)))"

abbreviation (input) "ns_registry \<equiv> usedPermits (snd (transact ns_call (ref_state 1000000)))"

section \<open>The amount codec (src/utils/permitUtils.js)\<close>

text \<open>
  \<open>formatUSDCAmount\<close> turns a decimal string into the smallest unit and
  \<open>parseUSDCAmount\<close> turns an integer of the smallest unit into a decimal string. Both
  wrap a function of the ethers library in \<open>try\<close>/\<open>catch\<close>. The library is not part of
  the repository, so the wrappers take its two functions as a parameter; either of them
  returns its result or throws.
\<close>

datatype ethers_error = INVALID_ARGUMENT | NUMERIC_FAULT

record ethers =
  parseUnits :: "string \<Rightarrow> nat \<Rightarrow> ethers_error + int"
  formatUnits :: "int \<Rightarrow> nat \<Rightarrow> ethers_error + string"

subsection \<open>Decimal digits\<close>

definition is_digit :: "char \<Rightarrow> bool" where
  "is_digit c \<longleftrightarrow> 48 \<le> (of_char c :: nat) \<and> (of_char c :: nat) \<le> 57"

definition digit_val :: "char \<Rightarrow> nat" where
  "digit_val c = of_char c - 48"

definition digit_char :: "nat \<Rightarrow> char" where
  "digit_char d = char_of (48 + d)"

text \<open>\<open>toString()\<close> of a non-negative bigint: its decimal digits, no leading zero.\<close>

function dec :: "nat \<Rightarrow> string" where
  "dec n = (if n < 10 then [digit_char n] else dec (n div 10) @ [digit_char (n mod 10)])"
  by pat_completeness auto
termination
  by (relation "measure id") auto

declare dec.simps [simp del]

definition bigint_toString :: "int \<Rightarrow> string" where
  "bigint_toString i = (if i < 0 then CHR ''-'' # dec (nat (- i)) else dec (nat i))"

text \<open>\<open>BigInt(s)\<close> for a string of decimal digits.\<close>

definition digits_value :: "string \<Rightarrow> nat" where
  "digits_value s = foldl (\<lambda>a c. 10 * a + digit_val c) 0 s"

subsection \<open>The wrappers\<close>

text \<open>
  \<^verbatim>\<open>try { return ethers.parseUnits(amount.toString(), decimals).toString(); }
  catch (error) { console.error(...); return '0'; }\<close>
  The callers pass strings, for which \<open>toString()\<close> is the identity.
\<close>

definition formatUSDCAmount :: "ethers \<Rightarrow> string \<Rightarrow> nat \<Rightarrow> string" where
  "formatUSDCAmount L amount' decimals =
     (case parseUnits L amount' decimals of
        Inr n \<Rightarrow> bigint_toString n
      | Inl error \<Rightarrow> ''0'')"

text \<open>
  \<^verbatim>\<open>try { return ethers.formatUnits(amount.toString(), decimals); }
  catch (error) { console.error(...); return '0'; }\<close>
  The amount is an integer (a bigint, as a balance read from the token is);
  \<open>formatUnits\<close> reads the decimal string that \<open>toString()\<close> gives back into the same
  integer, so the model hands it the integer.
\<close>

definition parseUSDCAmount :: "ethers \<Rightarrow> int \<Rightarrow> nat \<Rightarrow> string" where
  "parseUSDCAmount L amount' decimals =
     (case formatUnits L amount' decimals of
        Inr str \<Rightarrow> str
      | Inl error \<Rightarrow> ''0'')"

subsection \<open>The library functions\<close>

text \<open>
  The two functions as ethers version 6 implements them, through its \<open>FixedNumber\<close>
  with the format \<open>{ decimals, width: 512 }\<close> (signed), which admits at most 80
  decimals. They are the instance of the parameter on which the wrappers are evaluated.

  \<open>FixedNumber.fromString\<close> matches the input against
  \<^verbatim>\<open>/^(-?)([0-9]*)\.?([0-9]*)$/\<close>: an optional minus sign, digits, an optional point,
  digits. \<open>match_decimal\<close> gives the three groups, or \<open>None\<close> when there is no match.
\<close>

definition match_decimal :: "string \<Rightarrow> (bool \<times> string \<times> string) option" where
  "match_decimal s =
     (let negative = (s \<noteq> [] \<and> hd s = CHR ''-'');
          body = (if negative then tl s else s);
          whole = takeWhile is_digit body;
          rest = dropWhile is_digit body;
          rest' = (if rest \<noteq> [] \<and> hd rest = CHR ''.'' then tl rest else rest);
          decimal = takeWhile is_digit rest'
      in if dropWhile is_digit rest' = [] then Some (negative, whole, decimal) else None)"

text \<open>\<^verbatim>\<open>while (decimal.length < format.decimals) { decimal += Zeros; }\<close> with \<open>Zeros = "0000"\<close>.\<close>

function pad_decimal :: "string \<Rightarrow> nat \<Rightarrow> string" where
  "pad_decimal decimal decimals =
     (if length decimal < decimals then pad_decimal (decimal @ ''0000'') decimals else decimal)"
  by pat_completeness auto
termination
  by (relation "measure (\<lambda>(decimal, decimals). decimals - length decimal)") auto

declare pad_decimal.simps [simp del]

text \<open>\<open>checkValue\<close> for a signed format of width 512.\<close>

definition in_range :: "int \<Rightarrow> bool" where
  "in_range val \<longleftrightarrow> - (2 ^ 511) \<le> val \<and> val < 2 ^ 511"

definition ethers_parseUnits :: "string \<Rightarrow> nat \<Rightarrow> ethers_error + int" where
  "ethers_parseUnits value decimals =
     (case match_decimal value of
        None \<Rightarrow> Inl INVALID_ARGUMENT
      | Some (negative, m2, m3) \<Rightarrow>
          if length m2 + length m3 = 0 then Inl INVALID_ARGUMENT
          else if 80 < decimals then Inl INVALID_ARGUMENT
          else
            let whole = (if m2 = [] then ''0'' else m2);
                decimal = pad_decimal m3 decimals
            in
            if \<not> list_all (\<lambda>c. c = CHR ''0'') (drop decimals decimal) then Inl NUMERIC_FAULT
            else
              let decimal = take decimals decimal;
                  val = (if negative then - int (digits_value (whole @ decimal))
                         else int (digits_value (whole @ decimal)))
              in if in_range val then Inr val else Inl NUMERIC_FAULT)"

text \<open>
  \<^verbatim>\<open>while (str.length <= decimals) { str = Zeros + str; }\<close>
\<close>

function pad_whole :: "string \<Rightarrow> nat \<Rightarrow> string" where
  "pad_whole str decimals =
     (if length str \<le> decimals then pad_whole (''0000'' @ str) decimals else str)"
  by pat_completeness auto
termination
  by (relation "measure (\<lambda>(str, decimals). Suc decimals - length str)") auto

declare pad_whole.simps [simp del]

text \<open>
  \<^verbatim>\<open>while (str[0] === "0" && str[1] !== ".") { str = str.substring(1); }\<close>
  Reading past the end of a JavaScript string gives \<open>undefined\<close>, which is neither
  \<open>"0"\<close> nor \<open>"."\<close>. The loop that trims the fraction,
  \<^verbatim>\<open>while (str[str.length - 1] === "0" && str[str.length - 2] !== ".")
    { str = str.substring(0, str.length - 1); }\<close>
  is the same loop on the reversed string.
\<close>

fun trim_zeros :: "string \<Rightarrow> string" where
  "trim_zeros (c1 # c2 # cs) =
     (if c1 = CHR ''0'' \<and> c2 \<noteq> CHR ''.'' then trim_zeros (c2 # cs) else c1 # c2 # cs)"
| "trim_zeros [c] = (if c = CHR ''0'' then [] else [c])"
| "trim_zeros [] = []"

text \<open>The \<open>toString\<close> of a \<open>FixedNumber\<close>.\<close>

definition fixed_toString :: "int \<Rightarrow> nat \<Rightarrow> string" where
  "fixed_toString val decimals =
     (let negative = (if val < 0 then ''-'' else []);
          str = dec (nat \<bar>val\<bar>)
      in if decimals = 0 then negative @ str
         else
           let str = pad_whole str decimals;
               index = length str - decimals;
               str = take index str @ ''.'' @ drop index str;
               str = trim_zeros str;
               str = rev (trim_zeros (rev str))
           in negative @ str)"

definition ethers_formatUnits :: "int \<Rightarrow> nat \<Rightarrow> ethers_error + string" where
  "ethers_formatUnits val decimals =
     (if 80 < decimals then Inl INVALID_ARGUMENT
      else if in_range val then Inr (fixed_toString val decimals)
      else Inl NUMERIC_FAULT)"

definition ethers_v6 :: ethers where
  "ethers_v6 = \<lparr>parseUnits = ethers_parseUnits, formatUnits = ethers_formatUnits\<rparr>"

text \<open>The number of digits after the point of a decimal string; none without a point.\<close>

definition fraction_digits :: "string \<Rightarrow> nat" where
  "fraction_digits s = length (drop 1 (dropWhile (\<lambda>c. c \<noteq> CHR ''.'') s))"

text \<open>The digits after the point of a decimal string.\<close>

definition fraction_part :: "string \<Rightarrow> string" where
  "fraction_part s = drop 1 (dropWhile (\<lambda>c. c \<noteq> CHR ''.'') s)"

section \<open>Properties of the contract\<close>

subsection \<open>Packed encoding is injective\<close>

lemma length_be_bytes: "length (be_bytes n w) = n"
  by (induction n arbitrary: w) auto

lemma be_bytes_take_bit:
  "be_bytes n w = be_bytes n w' \<Longrightarrow> take_bit (8 * n) w = take_bit (8 * n) w'"
proof (induction n arbitrary: w w')
  case 0
  then show ?case by simp
next
  case (Suc n)
  from Suc.prems have hi: "be_bytes n (drop_bit 8 w) = be_bytes n (drop_bit 8 w')"
    and lo: "(ucast w :: byte) = ucast w'"
    by simp_all
  from Suc.IH [OF hi] have IH: "take_bit (8 * n) (drop_bit 8 w) = take_bit (8 * n) (drop_bit 8 w')" .
  show ?case
  proof (rule bit_eqI)
    fix i
    assume "possible_bit TYPE('a word) i"
    show "bit (take_bit (8 * Suc n) w) i \<longleftrightarrow> bit (take_bit (8 * Suc n) w') i"
    proof (cases "i < 8")
      case True
      from lo have "bit (ucast w :: byte) i \<longleftrightarrow> bit (ucast w' :: byte) i" by simp
      with True show ?thesis by (simp add: bit_simps)
    next
      case False
      then obtain j where j: "i = 8 + j" by (metis le_add_diff_inverse not_less)
      from IH have "bit (take_bit (8 * n) (drop_bit 8 w)) j \<longleftrightarrow> bit (take_bit (8 * n) (drop_bit 8 w')) j"
        by simp
      then show ?thesis by (simp add: bit_simps j)
    qed
  qed
qed

lemma packed_uint256_inj: "packed_uint256 x = packed_uint256 y \<Longrightarrow> x = y"
  using be_bytes_take_bit [of 32 x y] by (simp add: packed_uint256_def take_bit_word_eq_self)

lemma packed_address_inj: "packed_address x = packed_address y \<Longrightarrow> x = y"
  using be_bytes_take_bit [of 20 x y] by (simp add: packed_address_def take_bit_word_eq_self)

lemma length_packed [simp]:
  "length (packed_uint256 x) = 32" "length (packed_address a) = 20"
  "length (packed_bytes32 b) = 32" "length (packed_uint8 c) = 1"
  by (simp_all add: packed_uint256_def packed_address_def packed_bytes32_def packed_uint8_def length_be_bytes)

lemma sum_recipients_Inr:
  "sum_recipients xs acc = Inr t \<Longrightarrow>
     (\<forall>x \<in> set xs. to x \<noteq> 0 \<and> amount x \<noteq> 0) \<and>
     unat t = unat acc + sum_list (map (\<lambda>x. unat (amount x)) xs)"
proof (induction xs arbitrary: acc)
  case Nil
  then show ?case by simp
next
  case (Cons x xs)
  from Cons.prems obtain acc' where
    ok: "to x \<noteq> 0" "amount x \<noteq> 0" and
    add: "checked_add acc (amount x) = Inr acc'" and
    rest: "sum_recipients xs acc' = Inr t"
    by (auto split: if_splits sum.splits)
  from add have "unat acc' = unat acc + unat (amount x)"
    by (auto simp: checked_add_def unat_word_ariths split: if_splits)
  with Cons.IH [OF rest] ok show ?case by simp
qed

lemma sum_recipients_ok:
  "\<forall>x \<in> set xs. to x \<noteq> 0 \<and> amount x \<noteq> 0 \<Longrightarrow>
   unat acc + sum_list (map (\<lambda>x. unat (amount x)) xs) < 2 ^ 256 \<Longrightarrow>
   \<exists>t. sum_recipients xs acc = Inr t"
proof (induction xs arbitrary: acc)
  case Nil
  then show ?case by simp
next
  case (Cons x xs)
  have fits: "unat acc + unat (amount x) < 2 ^ 256"
    using Cons.prems(2) by simp
  then have u: "unat (acc + amount x) = unat acc + unat (amount x)"
    by (simp add: unat_word_ariths)
  have "\<exists>t. sum_recipients xs (acc + amount x) = Inr t"
    using Cons.prems u by (intro Cons.IH) (simp_all add: add.assoc)
  with fits Cons.prems(1) show ?case
    by (simp add: checked_add_def)
qed

lemma checked_add_Inr: "checked_add a b = Inr c \<Longrightarrow> unat c = unat a + unat b"
  by (auto simp: checked_add_def unat_word_ariths split: if_splits)

lemma checked_add_Inl: "checked_add a b = Inl e \<Longrightarrow> e = Panic"
  by (auto simp: checked_add_def split: if_splits)

lemma transfer_fee_moves:
  "transfer_fee E owner c fee t = Inr t' \<longleftrightarrow>
     move_all E owner (if fee = 0 then [] else [(c, fee)]) t = Some t'"
  by (auto simp: transfer_fee_def word_greater_zero_iff split: option.splits)

lemma transfer_each_moves:
  "transfer_each E owner xs t = Inr t' \<longleftrightarrow>
     move_all E owner (map (\<lambda>x. (to x, amount x)) xs) t = Some t'"
  by (induction xs arbitrary: t) (auto split: option.splits)

lemma move_all_append:
  "move_all E owner (ms @ ns) t =
     (case move_all E owner ms t of None \<Rightarrow> None | Some t' \<Rightarrow> move_all E owner ns t')"
  by (induction ms arbitrary: t) (auto split: option.splits)

lemma try_permit_Inr:
  "try_permit E now owner value deadline v r s t = Inr t' \<longleftrightarrow>
     permit (usdc E) t now owner (this E) value deadline v r s = Some t'"
  by (auto simp: try_permit_def split: option.splits)

lemma single_success:
  assumes "facilitateTransferWithPermit E now owner to' value deadline v r s feeAmount \<sigma> = Inr \<sigma>'"
  shows "single_inputs_ok owner to' value feeAmount \<and> now \<le> deadline \<and>
         \<not> usedPermits \<sigma> (calculatePermitHash E owner value deadline v r s) \<and>
         usedPermits \<sigma>' = (usedPermits \<sigma>)(calculatePermitHash E owner value deadline v r s := True) \<and>
         feeCollector \<sigma>' = feeCollector \<sigma> \<and>
         value \<le> balanceOf (usdc E) (ledger \<sigma>) owner \<and>
         (\<exists>t1. permit (usdc E) (ledger \<sigma>) now owner (this E) value deadline v r s = Some t1 \<and>
               move_all E owner (single_movements (feeCollector \<sigma>) to' value feeAmount) t1
                 = Some (ledger \<sigma>'))"
  using assms
  unfolding facilitateTransferWithPermit_def calculatePermitHash_def single_inputs_ok_def
    single_movements_def Let_def move_all_append
  by (auto split: if_splits sum.splits option.splits prod.splits
      simp: try_permit_Inr transfer_fee_moves not_less not_le)

lemma single_used:
  "single_inputs_ok owner to' value feeAmount \<Longrightarrow> now \<le> deadline \<Longrightarrow>
   usedPermits \<sigma> (calculatePermitHash E owner value deadline v r s) \<Longrightarrow>
   facilitateTransferWithPermit E now owner to' value deadline v r s feeAmount \<sigma>
     = Inl PermitAlreadyUsed"
  by (simp add: facilitateTransferWithPermit_def calculatePermitHash_def single_inputs_ok_def
      not_less not_le)

lemma single_used_only_if:
  "facilitateTransferWithPermit E now owner to' value deadline v r s feeAmount \<sigma>
     = Inl PermitAlreadyUsed \<Longrightarrow>
   usedPermits \<sigma> (calculatePermitHash E owner value deadline v r s) \<and> now \<le> deadline"
  unfolding facilitateTransferWithPermit_def calculatePermitHash_def Let_def
  by (auto split: if_splits sum.splits option.splits prod.splits
      simp: try_permit_def transfer_fee_def)

lemma single_insufficient:
  "single_inputs_ok owner to' value feeAmount \<Longrightarrow> now \<le> deadline \<Longrightarrow>
   \<not> usedPermits \<sigma> (calculatePermitHash E owner value deadline v r s) \<Longrightarrow>
   balanceOf (usdc E) (ledger \<sigma>) owner < value \<Longrightarrow>
   facilitateTransferWithPermit E now owner to' value deadline v r s feeAmount \<sigma>
     = Inl InsufficientBalance"
  by (simp add: facilitateTransferWithPermit_def calculatePermitHash_def single_inputs_ok_def
      not_less not_le)

lemma single_expired:
  "single_inputs_ok owner to' value feeAmount \<Longrightarrow> deadline < now \<Longrightarrow>
   facilitateTransferWithPermit E now owner to' value deadline v r s feeAmount \<sigma>
     = Inl PermitExpired"
  by (simp add: facilitateTransferWithPermit_def single_inputs_ok_def not_less not_le)

lemma single_fee:
  "owner \<noteq> 0 \<Longrightarrow> to' \<noteq> 0 \<Longrightarrow> value \<noteq> 0 \<Longrightarrow> value \<le> feeAmount \<Longrightarrow>
   facilitateTransferWithPermit E now owner to' value deadline v r s feeAmount \<sigma>
     = Inl InvalidFeeAmount"
  by (simp add: facilitateTransferWithPermit_def)

lemma ns_success:
  assumes "facilitateTransferWithNonStandardPermit E now owner to' value deadline v r s feeAmount \<sigma> = Inr \<sigma>'"
  shows "single_inputs_ok owner to' value feeAmount \<and> now \<le> deadline \<and>
         \<not> usedPermits \<sigma> (nonStandardPermitHash E owner value deadline
              (nonces (usdc E) (ledger \<sigma>) owner) v r s) \<and>
         usedPermits \<sigma>' = (usedPermits \<sigma>)(nonStandardPermitHash E owner value deadline
              (nonces (usdc E) (ledger \<sigma>) owner) v r s := True) \<and>
         feeCollector \<sigma>' = feeCollector \<sigma> \<and>
         value \<le> balanceOf (usdc E) (ledger \<sigma>) owner \<and>
         (\<exists>t1. permit (usdc E) (ledger \<sigma>) now owner (this E) value deadline v r s = Some t1 \<and>
               move_all E owner (single_movements (feeCollector \<sigma>) to' value feeAmount) t1
                 = Some (ledger \<sigma>'))"
  using assms
  unfolding facilitateTransferWithNonStandardPermit_def nonStandardPermitHash_def
    single_inputs_ok_def single_movements_def Let_def move_all_append
  by (auto split: if_splits sum.splits option.splits prod.splits
      simp: try_permit_Inr transfer_fee_moves not_less not_le)

lemma ns_used:
  "single_inputs_ok owner to' value feeAmount \<Longrightarrow> now \<le> deadline \<Longrightarrow>
   usedPermits \<sigma> (nonStandardPermitHash E owner value deadline
      (nonces (usdc E) (ledger \<sigma>) owner) v r s) \<Longrightarrow>
   facilitateTransferWithNonStandardPermit E now owner to' value deadline v r s feeAmount \<sigma>
     = Inl PermitAlreadyUsed"
  by (simp add: facilitateTransferWithNonStandardPermit_def nonStandardPermitHash_def
      single_inputs_ok_def not_less not_le)

lemma ns_used_only_if:
  "facilitateTransferWithNonStandardPermit E now owner to' value deadline v r s feeAmount \<sigma>
     = Inl PermitAlreadyUsed \<Longrightarrow>
   usedPermits \<sigma> (nonStandardPermitHash E owner value deadline
      (nonces (usdc E) (ledger \<sigma>) owner) v r s) \<and> now \<le> deadline"
  unfolding facilitateTransferWithNonStandardPermit_def nonStandardPermitHash_def Let_def
  by (auto split: if_splits sum.splits option.splits prod.splits
      simp: try_permit_def transfer_fee_def)

lemma ns_insufficient:
  "single_inputs_ok owner to' value feeAmount \<Longrightarrow> now \<le> deadline \<Longrightarrow>
   \<not> usedPermits \<sigma> (nonStandardPermitHash E owner value deadline
      (nonces (usdc E) (ledger \<sigma>) owner) v r s) \<Longrightarrow>
   balanceOf (usdc E) (ledger \<sigma>) owner < value \<Longrightarrow>
   facilitateTransferWithNonStandardPermit E now owner to' value deadline v r s feeAmount \<sigma>
     = Inl InsufficientBalance"
  by (simp add: facilitateTransferWithNonStandardPermit_def nonStandardPermitHash_def
      single_inputs_ok_def not_less not_le)

lemma ns_expired:
  "single_inputs_ok owner to' value feeAmount \<Longrightarrow> deadline < now \<Longrightarrow>
   facilitateTransferWithNonStandardPermit E now owner to' value deadline v r s feeAmount \<sigma>
     = Inl PermitExpired"
  by (simp add: facilitateTransferWithNonStandardPermit_def single_inputs_ok_def not_less not_le)

lemma ns_fee:
  "owner \<noteq> 0 \<Longrightarrow> to' \<noteq> 0 \<Longrightarrow> value \<noteq> 0 \<Longrightarrow> value \<le> feeAmount \<Longrightarrow>
   facilitateTransferWithNonStandardPermit E now owner to' value deadline v r s feeAmount \<sigma>
     = Inl InvalidFeeAmount"
  by (simp add: facilitateTransferWithNonStandardPermit_def)

text \<open>The validation loop and the sum check of the bulk functions.\<close>

lemma bulk_sum_ok:
  assumes "bulk_inputs_ok owner recipients totalValue feeAmount"
  shows "\<exists>t. sum_recipients recipients 0 = Inr t \<and> unat t = sum_amounts recipients \<and>
             checked_add t feeAmount = Inr (t + feeAmount) \<and>
             unat (t + feeAmount) = sum_amounts recipients + unat feeAmount"
proof -
  from assms have valid: "\<forall>x \<in> set recipients. to x \<noteq> 0 \<and> amount x \<noteq> 0"
    and fits: "sum_amounts recipients + unat feeAmount < 2 ^ 256"
    by (simp_all add: bulk_inputs_ok_def list_all_iff)
  from fits have "unat (0 :: uint256) + sum_list (map (\<lambda>x. unat (amount x)) recipients) < 2 ^ 256"
    by (simp add: sum_amounts_def)
  from sum_recipients_ok [OF valid this] obtain t where t: "sum_recipients recipients 0 = Inr t"
    by blast
  from sum_recipients_Inr [OF t] have ut: "unat t = sum_amounts recipients"
    by (simp add: sum_amounts_def)
  with fits have "unat t + unat feeAmount < 2 ^ 256" by simp
  then have "checked_add t feeAmount = Inr (t + feeAmount)"
    and "unat (t + feeAmount) = unat t + unat feeAmount"
    by (simp_all add: checked_add_def unat_word_ariths)
  with t ut show ?thesis by simp
qed

lemma bulk_success:
  assumes "facilitateBulkTransferWithPermit E now owner recipients totalValue deadline v r s
             feeAmount \<sigma> = Inr \<sigma>'"
  shows "bulk_inputs_ok owner recipients totalValue feeAmount \<and> now \<le> deadline \<and>
         sum_amounts recipients + unat feeAmount = unat totalValue \<and>
         usedPermits \<sigma>' = usedPermits \<sigma> \<and>
         feeCollector \<sigma>' = feeCollector \<sigma> \<and>
         totalValue \<le> balanceOf (usdc E) (ledger \<sigma>) owner \<and>
         (\<exists>t1. permit (usdc E) (ledger \<sigma>) now owner (this E) totalValue deadline v r s = Some t1 \<and>
               move_all E owner (bulk_movements (feeCollector \<sigma>) recipients feeAmount) t1
                 = Some (ledger \<sigma>'))"
proof -
  from assms obtain t t1 t2 t3 where
    pre: "owner \<noteq> 0" "recipients \<noteq> []" "totalValue \<noteq> 0" "feeAmount < totalValue"
         "now \<le> deadline" and
    sum: "sum_recipients recipients 0 = Inr t" and
    add: "checked_add t feeAmount = Inr totalValue" and
    bal: "totalValue \<le> balanceOf (usdc E) (ledger \<sigma>) owner" and
    p: "try_permit E now owner totalValue deadline v r s (ledger \<sigma>) = Inr t1" and
    f: "transfer_fee E owner (feeCollector \<sigma>) feeAmount t1 = Inr t2" and
    e: "transfer_each E owner recipients t2 = Inr t3" and
    \<sigma>': "\<sigma>' = \<sigma>\<lparr>ledger := t3, events := events \<sigma> @
            [BulkFacilitationExecuted owner (of_nat (length recipients)) t feeAmount]\<rparr>"
    unfolding facilitateBulkTransferWithPermit_def
    by (auto split: if_splits sum.splits simp: not_less not_le)
  from sum_recipients_Inr [OF sum]
  have valid: "\<forall>x \<in> set recipients. to x \<noteq> 0 \<and> amount x \<noteq> 0"
    and ut: "unat t = sum_amounts recipients"
    by (simp_all add: sum_amounts_def)
  from checked_add_Inr [OF add] ut
  have law: "sum_amounts recipients + unat feeAmount = unat totalValue" by simp
  have "sum_amounts recipients + unat feeAmount < 2 ^ 256"
    using law unsigned_less [of totalValue, where 'a = nat] by simp
  with pre valid have ok: "bulk_inputs_ok owner recipients totalValue feeAmount"
    by (simp add: bulk_inputs_ok_def list_all_iff)
  from f e have "move_all E owner (bulk_movements (feeCollector \<sigma>) recipients feeAmount) t1
      = Some t3"
    by (simp add: bulk_movements_def move_all_append transfer_fee_moves transfer_each_moves)
  with p ok pre law bal \<sigma>' show ?thesis
    by (simp add: try_permit_Inr)
qed

lemma bulk_ns_success:
  assumes "facilitateBulkTransferWithNonStandardPermit E now owner recipients totalValue deadline
             v r s feeAmount \<sigma> = Inr \<sigma>'"
  shows "bulk_inputs_ok owner recipients totalValue feeAmount \<and> now \<le> deadline \<and>
         sum_amounts recipients + unat feeAmount = unat totalValue \<and>
         \<not> usedPermits \<sigma> (nonStandardBulkPermitHash E owner totalValue deadline
              (nonces (usdc E) (ledger \<sigma>) owner) (of_nat (length recipients))) \<and>
         usedPermits \<sigma>' = (usedPermits \<sigma>)(nonStandardBulkPermitHash E owner totalValue deadline
              (nonces (usdc E) (ledger \<sigma>) owner) (of_nat (length recipients)) := True) \<and>
         feeCollector \<sigma>' = feeCollector \<sigma> \<and>
         totalValue \<le> balanceOf (usdc E) (ledger \<sigma>) owner \<and>
         (\<exists>t1. permit (usdc E) (ledger \<sigma>) now owner (this E) totalValue deadline v r s = Some t1 \<and>
               move_all E owner (bulk_movements (feeCollector \<sigma>) recipients feeAmount) t1
                 = Some (ledger \<sigma>'))"
proof -
  let ?h = "nonStandardBulkPermitHash E owner totalValue deadline
              (nonces (usdc E) (ledger \<sigma>) owner) (of_nat (length recipients))"
  from assms obtain t t1 t2 t3 where
    pre: "owner \<noteq> 0" "recipients \<noteq> []" "totalValue \<noteq> 0" "feeAmount < totalValue"
         "now \<le> deadline" and
    sum: "sum_recipients recipients 0 = Inr t" and
    add: "checked_add t feeAmount = Inr totalValue" and
    unused: "\<not> usedPermits \<sigma> ?h" and
    bal: "totalValue \<le> balanceOf (usdc E) (ledger \<sigma>) owner" and
    p: "try_permit E now owner totalValue deadline v r s (ledger \<sigma>) = Inr t1" and
    f: "transfer_fee E owner (feeCollector \<sigma>) feeAmount t1 = Inr t2" and
    e: "transfer_each E owner recipients t2 = Inr t3" and
    \<sigma>': "\<sigma>' = \<sigma>\<lparr>usedPermits := (usedPermits \<sigma>)(?h := True), ledger := t3,
            events := events \<sigma> @
              [BulkFacilitationExecuted owner (of_nat (length recipients)) t feeAmount]\<rparr>"
    unfolding facilitateBulkTransferWithNonStandardPermit_def nonStandardBulkPermitHash_def Let_def
    by (auto split: if_splits sum.splits simp: not_less not_le)
  from sum_recipients_Inr [OF sum]
  have valid: "\<forall>x \<in> set recipients. to x \<noteq> 0 \<and> amount x \<noteq> 0"
    and ut: "unat t = sum_amounts recipients"
    by (simp_all add: sum_amounts_def)
  from checked_add_Inr [OF add] ut
  have law: "sum_amounts recipients + unat feeAmount = unat totalValue" by simp
  have "sum_amounts recipients + unat feeAmount < 2 ^ 256"
    using law unsigned_less [of totalValue, where 'a = nat] by simp
  with pre valid have ok: "bulk_inputs_ok owner recipients totalValue feeAmount"
    by (simp add: bulk_inputs_ok_def list_all_iff)
  from f e have "move_all E owner (bulk_movements (feeCollector \<sigma>) recipients feeAmount) t1
      = Some t3"
    by (simp add: bulk_movements_def move_all_append transfer_fee_moves transfer_each_moves)
  with p ok pre law bal unused \<sigma>' show ?thesis
    by (simp add: try_permit_Inr)
qed

text \<open>A bulk request that passes the validation loop reaches the sum check.\<close>

lemma bulk_mismatch:
  assumes ok: "bulk_inputs_ok owner recipients totalValue feeAmount"
    and t: "now \<le> deadline"
    and ne: "sum_amounts recipients + unat feeAmount \<noteq> unat totalValue"
  shows "facilitateBulkTransferWithPermit E now owner recipients totalValue deadline v r s
           feeAmount \<sigma> = Inl InvalidFeeAmount"
proof -
  from bulk_sum_ok [OF ok] obtain tot where
    sum: "sum_recipients recipients 0 = Inr tot" and
    add: "checked_add tot feeAmount = Inr (tot + feeAmount)" and
    u: "unat (tot + feeAmount) = sum_amounts recipients + unat feeAmount"
    by blast
  from u ne have "totalValue \<noteq> tot + feeAmount" by auto
  with ok t sum add show ?thesis
    by (simp add: facilitateBulkTransferWithPermit_def bulk_inputs_ok_def not_less not_le)
qed

lemma bulk_ns_mismatch:
  assumes ok: "bulk_inputs_ok owner recipients totalValue feeAmount"
    and t: "now \<le> deadline"
    and ne: "sum_amounts recipients + unat feeAmount \<noteq> unat totalValue"
  shows "facilitateBulkTransferWithNonStandardPermit E now owner recipients totalValue deadline
           v r s feeAmount \<sigma> = Inl InvalidFeeAmount"
proof -
  from bulk_sum_ok [OF ok] obtain tot where
    sum: "sum_recipients recipients 0 = Inr tot" and
    add: "checked_add tot feeAmount = Inr (tot + feeAmount)" and
    u: "unat (tot + feeAmount) = sum_amounts recipients + unat feeAmount"
    by blast
  from u ne have "totalValue \<noteq> tot + feeAmount" by auto
  with ok t sum add show ?thesis
    by (simp add: facilitateBulkTransferWithNonStandardPermit_def bulk_inputs_ok_def
        not_less not_le)
qed

text \<open>A bulk request that passes every input check reaches the stage after the sum check.\<close>

lemma bulk_reaches_balance:
  assumes ok: "bulk_inputs_ok owner recipients totalValue feeAmount"
    and t: "now \<le> deadline"
    and law: "sum_amounts recipients + unat feeAmount = unat totalValue"
    and bal: "balanceOf (usdc E) (ledger \<sigma>) owner < totalValue"
  shows "facilitateBulkTransferWithPermit E now owner recipients totalValue deadline v r s
           feeAmount \<sigma> = Inl InsufficientBalance"
proof -
  from bulk_sum_ok [OF ok] obtain tot where
    sum: "sum_recipients recipients 0 = Inr tot" and
    add: "checked_add tot feeAmount = Inr (tot + feeAmount)" and
    u: "unat (tot + feeAmount) = sum_amounts recipients + unat feeAmount"
    by blast
  from u law have eq: "tot + feeAmount = totalValue" by (simp add: word_unat_eq_iff)
  from ok t sum add bal show ?thesis
    by (simp add: facilitateBulkTransferWithPermit_def bulk_inputs_ok_def not_less not_le eq)
qed

lemma bulk_ns_used:
  assumes ok: "bulk_inputs_ok owner recipients totalValue feeAmount"
    and t: "now \<le> deadline"
    and law: "sum_amounts recipients + unat feeAmount = unat totalValue"
    and used: "usedPermits \<sigma> (nonStandardBulkPermitHash E owner totalValue deadline
              (nonces (usdc E) (ledger \<sigma>) owner) (of_nat (length recipients)))"
  shows "facilitateBulkTransferWithNonStandardPermit E now owner recipients totalValue deadline
           v r s feeAmount \<sigma> = Inl PermitAlreadyUsed"
proof -
  from bulk_sum_ok [OF ok] obtain tot where
    sum: "sum_recipients recipients 0 = Inr tot" and
    add: "checked_add tot feeAmount = Inr (tot + feeAmount)" and
    u: "unat (tot + feeAmount) = sum_amounts recipients + unat feeAmount"
    by blast
  from u law have eq: "tot + feeAmount = totalValue" by (simp add: word_unat_eq_iff)
  from ok t sum add used show ?thesis
    by (simp add: facilitateBulkTransferWithNonStandardPermit_def bulk_inputs_ok_def
        nonStandardBulkPermitHash_def not_less not_le eq)
qed

lemma bulk_ns_insufficient:
  assumes ok: "bulk_inputs_ok owner recipients totalValue feeAmount"
    and t: "now \<le> deadline"
    and law: "sum_amounts recipients + unat feeAmount = unat totalValue"
    and unused: "\<not> usedPermits \<sigma> (nonStandardBulkPermitHash E owner totalValue deadline
              (nonces (usdc E) (ledger \<sigma>) owner) (of_nat (length recipients)))"
    and bal: "balanceOf (usdc E) (ledger \<sigma>) owner < totalValue"
  shows "facilitateBulkTransferWithNonStandardPermit E now owner recipients totalValue deadline
           v r s feeAmount \<sigma> = Inl InsufficientBalance"
proof -
  from bulk_sum_ok [OF ok] obtain tot where
    sum: "sum_recipients recipients 0 = Inr tot" and
    add: "checked_add tot feeAmount = Inr (tot + feeAmount)" and
    u: "unat (tot + feeAmount) = sum_amounts recipients + unat feeAmount"
    by blast
  from u law have eq: "tot + feeAmount = totalValue" by (simp add: word_unat_eq_iff)
  from ok t sum add unused bal show ?thesis
    by (simp add: facilitateBulkTransferWithNonStandardPermit_def bulk_inputs_ok_def
        nonStandardBulkPermitHash_def not_less not_le eq)
qed

lemma sum_recipients_Inl:
  "sum_recipients xs acc = Inl e \<Longrightarrow>
     e = InvalidRecipient \<or> e = InvalidRecipientAmount \<or> e = Panic"
  by (induction xs arbitrary: acc)
     (auto split: if_splits sum.splits dest: checked_add_Inl)

lemma transfer_each_Inl: "transfer_each E owner xs t = Inl e \<Longrightarrow> e = LedgerReverted"
  by (induction xs arbitrary: t) (auto split: option.splits)

lemma transfer_fee_Inl: "transfer_fee E owner c fee t = Inl e \<Longrightarrow> e = LedgerReverted"
  by (auto simp: transfer_fee_def split: if_splits option.splits)

lemma try_permit_Inl:
  "try_permit E now owner value deadline v r s t = Inl e \<Longrightarrow> e = InvalidPermitSignature"
  by (auto simp: try_permit_def split: option.splits)

lemma bulk_never_used:
  "facilitateBulkTransferWithPermit E now owner recipients totalValue deadline v r s feeAmount \<sigma>
     \<noteq> Inl PermitAlreadyUsed"
  unfolding facilitateBulkTransferWithPermit_def
  by (auto split: if_splits sum.splits
      dest: sum_recipients_Inl checked_add_Inl try_permit_Inl transfer_fee_Inl transfer_each_Inl)

lemma bulk_ns_used_only_if:
  "facilitateBulkTransferWithNonStandardPermit E now owner recipients totalValue deadline v r s
       feeAmount \<sigma> = Inl PermitAlreadyUsed \<Longrightarrow>
   usedPermits \<sigma> (nonStandardBulkPermitHash E owner totalValue deadline
      (nonces (usdc E) (ledger \<sigma>) owner) (of_nat (length recipients))) \<and> now \<le> deadline"
  unfolding facilitateBulkTransferWithNonStandardPermit_def nonStandardBulkPermitHash_def Let_def
  by (auto split: if_splits sum.splits
      dest: sum_recipients_Inl checked_add_Inl try_permit_Inl transfer_fee_Inl transfer_each_Inl)

lemma bulk_fee:
  "owner \<noteq> 0 \<Longrightarrow> recipients \<noteq> [] \<Longrightarrow> totalValue \<noteq> 0 \<Longrightarrow> totalValue \<le> feeAmount \<Longrightarrow>
   facilitateBulkTransferWithPermit E now owner recipients totalValue deadline v r s feeAmount \<sigma>
     = Inl InvalidFeeAmount"
  by (simp add: facilitateBulkTransferWithPermit_def)

lemma bulk_ns_fee:
  "owner \<noteq> 0 \<Longrightarrow> recipients \<noteq> [] \<Longrightarrow> totalValue \<noteq> 0 \<Longrightarrow> totalValue \<le> feeAmount \<Longrightarrow>
   facilitateBulkTransferWithNonStandardPermit E now owner recipients totalValue deadline v r s
     feeAmount \<sigma> = Inl InvalidFeeAmount"
  by (simp add: facilitateBulkTransferWithNonStandardPermit_def)

lemma bulk_empty_iff:
  "facilitateBulkTransferWithPermit E now owner recipients totalValue deadline v r s feeAmount \<sigma>
     = Inl EmptyRecipientList \<longleftrightarrow> owner \<noteq> 0 \<and> recipients = []"
  unfolding facilitateBulkTransferWithPermit_def
  by (auto split: if_splits sum.splits
      dest: sum_recipients_Inl checked_add_Inl try_permit_Inl transfer_fee_Inl transfer_each_Inl)

lemma bulk_ns_empty_iff:
  "facilitateBulkTransferWithNonStandardPermit E now owner recipients totalValue deadline v r s
     feeAmount \<sigma> = Inl EmptyRecipientList \<longleftrightarrow> owner \<noteq> 0 \<and> recipients = []"
  unfolding facilitateBulkTransferWithNonStandardPermit_def Let_def
  by (auto split: if_splits sum.splits
      dest: sum_recipients_Inl checked_add_Inl try_permit_Inl transfer_fee_Inl transfer_each_Inl)

lemma bulk_passes_validation:
  assumes ok: "bulk_inputs_ok owner recipients totalValue feeAmount"
    and t: "now \<le> deadline"
    and law: "sum_amounts recipients + unat feeAmount = unat totalValue"
  shows "passed_validation (facilitateBulkTransferWithPermit E now owner recipients totalValue
           deadline v r s feeAmount \<sigma>)"
proof -
  from bulk_sum_ok [OF ok] obtain tot where
    sum: "sum_recipients recipients 0 = Inr tot" and
    add: "checked_add tot feeAmount = Inr (tot + feeAmount)" and
    u: "unat (tot + feeAmount) = sum_amounts recipients + unat feeAmount"
    by blast
  from u law have eq: "tot + feeAmount = totalValue" by (simp add: word_unat_eq_iff)
  from ok t sum add show ?thesis
    unfolding facilitateBulkTransferWithPermit_def passed_validation_def bulk_inputs_ok_def
    by (auto simp: not_less not_le eq split: sum.splits
        dest: try_permit_Inl transfer_fee_Inl transfer_each_Inl)
qed

lemma bulk_ns_passes_validation:
  assumes ok: "bulk_inputs_ok owner recipients totalValue feeAmount"
    and t: "now \<le> deadline"
    and law: "sum_amounts recipients + unat feeAmount = unat totalValue"
  shows "passed_validation (facilitateBulkTransferWithNonStandardPermit E now owner recipients
           totalValue deadline v r s feeAmount \<sigma>)"
proof -
  from bulk_sum_ok [OF ok] obtain tot where
    sum: "sum_recipients recipients 0 = Inr tot" and
    add: "checked_add tot feeAmount = Inr (tot + feeAmount)" and
    u: "unat (tot + feeAmount) = sum_amounts recipients + unat feeAmount"
    by blast
  from u law have eq: "tot + feeAmount = totalValue" by (simp add: word_unat_eq_iff)
  from ok t sum add show ?thesis
    unfolding facilitateBulkTransferWithNonStandardPermit_def passed_validation_def
      bulk_inputs_ok_def Let_def
    by (auto simp: not_less not_le eq split: sum.splits
        dest: try_permit_Inl transfer_fee_Inl transfer_each_Inl)
qed

lemma permitPacked_deadline:
  "permitPacked E owner value d v r s = permitPacked E owner value d' v r s \<Longrightarrow> d = d'"
  by (simp add: permitPacked_def packed_uint256_inj)

lemma permitPacked_value:
  "permitPacked E owner x deadline v r s = permitPacked E owner x' deadline v r s \<Longrightarrow> x = x'"
  by (simp add: permitPacked_def packed_uint256_inj)

lemma calculatePermitHash_packed:
  "calculatePermitHash E owner value deadline v r s
     = keccak256 E (permitPacked E owner value deadline v r s)"
  by (simp add: calculatePermitHash_def permitPacked_def)

lemma be_bytes_numeral:
  "be_bytes (numeral k) w = be_bytes (pred_numeral k) (drop_bit 8 w) @ [ucast w]"
  by (simp add: numeral_eq_Suc)

lemmas ref_defs =
  ref_env_def ref_usdc_def ref_state_def ref_permit_def ref_transferFrom_def ref_sign_def
  try_permit_def transfer_fee_def checked_add_def transact_def Let_def

subsection \<open>The fee guard\<close>

text \<open>
  Claim C4, as the code has it. A request whose fee is not below its total value is
  rejected with \<open>InvalidFeeAmount\<close> whatever its deadline, its signature, the registry
  and the ledger are, provided it passes the checks that come first: owner and recipient
  are not the null address (for a bulk request: the owner is not null and the list is not
  empty) and the total value is not zero.
\<close>

theorem fee_guard:
  assumes "totalValue \<le> feeAmount"
  shows "(owner \<noteq> 0 \<and> to' \<noteq> 0 \<and> totalValue \<noteq> 0 \<longrightarrow>
            facilitateTransferWithPermit E now owner to' totalValue deadline v r s feeAmount \<sigma>
              = Inl InvalidFeeAmount \<and>
            facilitateTransferWithNonStandardPermit E now owner to' totalValue deadline v r s
              feeAmount \<sigma> = Inl InvalidFeeAmount) \<and>
         (owner \<noteq> 0 \<and> recipients \<noteq> [] \<and> totalValue \<noteq> 0 \<longrightarrow>
            facilitateBulkTransferWithPermit E now owner recipients totalValue deadline v r s
              feeAmount \<sigma> = Inl InvalidFeeAmount \<and>
            facilitateBulkTransferWithNonStandardPermit E now owner recipients totalValue deadline
              v r s feeAmount \<sigma> = Inl InvalidFeeAmount)"
  using assms by (simp add: single_fee ns_fee bulk_fee bulk_ns_fee)

theorem fee_guard_witness:
  "facilitateTransferWithPermit ref_env 100 alice bob 1000000 200 27 sig_r sig_s 1000000
     (ref_state 1000000) = Inl InvalidFeeAmount \<and>
   facilitateTransferWithNonStandardPermit ref_env 100 alice bob 1000000 200 27 sig_r sig_s 1000000
     (ref_state 1000000) = Inl InvalidFeeAmount \<and>
   facilitateBulkTransferWithPermit ref_env 100 alice [\<lparr>to = bob, amount = 990000\<rparr>] 1000000 200
     27 sig_r sig_s 1000000 (ref_state 1000000) = Inl InvalidFeeAmount \<and>
   facilitateBulkTransferWithNonStandardPermit ref_env 100 alice [\<lparr>to = bob, amount = 990000\<rparr>]
     1000000 200 27 sig_r sig_s 1000000 (ref_state 1000000) = Inl InvalidFeeAmount"
  using fee_guard [where totalValue = 1000000 and feeAmount = 1000000 and owner = alice
      and to' = bob and recipients = "[\<lparr>to = bob, amount = 990000\<rparr>]" and E = ref_env
      and now = 100 and deadline = 200 and v = 27 and r = sig_r and s = sig_s
      and \<sigma> = "ref_state 1000000"]
  by simp

text \<open>
  The claim without that proviso fails: with a null owner the answer is
  \<open>InvalidRecipient\<close>, with a zero total value it is \<open>ZeroAmount\<close>.
\<close>

theorem fee_guard_counterexample:
  "(100 :: uint256) \<le> 100 \<and>
   facilitateTransferWithPermit ref_env 100 0 bob 100 200 27 sig_r sig_s 100 (ref_state 1000000)
     = Inl InvalidRecipient \<and>
   (0 :: uint256) \<le> 0 \<and>
   facilitateTransferWithPermit ref_env 100 alice bob 0 200 27 sig_r sig_s 0 (ref_state 1000000)
     = Inl ZeroAmount"
  by (simp add: facilitateTransferWithPermit_def)

subsection \<open>The sum law of bulk requests\<close>

lemma bulk_Inl_unless_law:
  assumes "sum_amounts recipients + unat feeAmount \<noteq> unat totalValue"
  shows "\<exists>e. facilitateBulkTransferWithPermit E now owner recipients totalValue deadline v r s
          feeAmount \<sigma> = Inl e"
proof (cases "facilitateBulkTransferWithPermit E now owner recipients totalValue deadline v r s
          feeAmount \<sigma>")
  case (Inl e)
  then show ?thesis by blast
next
  case (Inr \<sigma>')
  from bulk_success [OF Inr]
  have "sum_amounts recipients + unat feeAmount = unat totalValue" by blast
  with assms show ?thesis by contradiction
qed

lemma bulk_ns_Inl_unless_law:
  assumes "sum_amounts recipients + unat feeAmount \<noteq> unat totalValue"
  shows "\<exists>e. facilitateBulkTransferWithNonStandardPermit E now owner recipients totalValue deadline
          v r s feeAmount \<sigma> = Inl e"
proof (cases "facilitateBulkTransferWithNonStandardPermit E now owner recipients totalValue
          deadline v r s feeAmount \<sigma>")
  case (Inl e)
  then show ?thesis by blast
next
  case (Inr \<sigma>')
  from bulk_ns_success [OF Inr]
  have "sum_amounts recipients + unat feeAmount = unat totalValue" by blast
  with assms show ?thesis by contradiction
qed

lemma transact_Inl: "call \<sigma> = Inl e \<Longrightarrow> transact call \<sigma> = (Some e, \<sigma>)"
  by (simp add: transact_def)

lemma transact_Inr: "call \<sigma> = Inr \<sigma>' \<Longrightarrow> transact call \<sigma> = (None, \<sigma>')"
  by (simp add: transact_def)

text \<open>
  Claim C5, as the code has it. A bulk request whose recipient amounts plus fee differ
  from its total value is never executed: the call reverts and leaves the state as it
  was, so no value moves. The error is \<open>InvalidFeeAmount\<close> when the request passes the
  checks that come before the sum check: the owner is not null, the list is not empty,
  the total value is not zero, the fee is below the total value, the deadline has not
  passed, and no recipient is null, no amount zero and the sum fits in 256 bits.
\<close>

theorem sum_law_enforced:
  assumes "sum_amounts recipients + unat feeAmount \<noteq> unat totalValue"
  shows "(\<exists>e. transact (facilitateBulkTransferWithPermit E now owner recipients totalValue
                  deadline v r s feeAmount) \<sigma> = (Some e, \<sigma>)) \<and>
         (\<exists>e. transact (facilitateBulkTransferWithNonStandardPermit E now owner recipients
                  totalValue deadline v r s feeAmount) \<sigma> = (Some e, \<sigma>)) \<and>
         (bulk_inputs_ok owner recipients totalValue feeAmount \<and> now \<le> deadline \<longrightarrow>
            facilitateBulkTransferWithPermit E now owner recipients totalValue deadline v r s
              feeAmount \<sigma> = Inl InvalidFeeAmount \<and>
            facilitateBulkTransferWithNonStandardPermit E now owner recipients totalValue deadline
              v r s feeAmount \<sigma> = Inl InvalidFeeAmount)"
proof (intro conjI impI)
  from bulk_Inl_unless_law [OF assms] obtain e where
    "facilitateBulkTransferWithPermit E now owner recipients totalValue deadline v r s
       feeAmount \<sigma> = Inl e"
    by blast
  then have "transact (facilitateBulkTransferWithPermit E now owner recipients totalValue
                  deadline v r s feeAmount) \<sigma> = (Some e, \<sigma>)"
    by (rule transact_Inl)
  then show "\<exists>e. transact (facilitateBulkTransferWithPermit E now owner recipients totalValue
                  deadline v r s feeAmount) \<sigma> = (Some e, \<sigma>)"
    by blast
  from bulk_ns_Inl_unless_law [OF assms] obtain e where
    "facilitateBulkTransferWithNonStandardPermit E now owner recipients totalValue deadline v r s
       feeAmount \<sigma> = Inl e"
    by blast
  then have "transact (facilitateBulkTransferWithNonStandardPermit E now owner recipients
                  totalValue deadline v r s feeAmount) \<sigma> = (Some e, \<sigma>)"
    by (rule transact_Inl)
  then show "\<exists>e. transact (facilitateBulkTransferWithNonStandardPermit E now owner recipients
                  totalValue deadline v r s feeAmount) \<sigma> = (Some e, \<sigma>)"
    by blast
next
  assume "bulk_inputs_ok owner recipients totalValue feeAmount \<and> now \<le> deadline"
  with assms
  show "facilitateBulkTransferWithPermit E now owner recipients totalValue deadline v r s
          feeAmount \<sigma> = Inl InvalidFeeAmount"
    by (simp add: bulk_mismatch)
next
  assume "bulk_inputs_ok owner recipients totalValue feeAmount \<and> now \<le> deadline"
  with assms
  show "facilitateBulkTransferWithNonStandardPermit E now owner recipients totalValue deadline
          v r s feeAmount \<sigma> = Inl InvalidFeeAmount"
    by (simp add: bulk_ns_mismatch)
qed

lemma two_recipients_sum: "sum_amounts two_recipients = 990000"
  by (simp add: sum_amounts_def)

theorem sum_law_enforced_witness:
  "facilitateBulkTransferWithPermit ref_env 100 alice two_recipients 999999 200 27 sig_r sig_s
     10000 (ref_state 1000000) = Inl InvalidFeeAmount \<and>
   facilitateBulkTransferWithNonStandardPermit ref_env 100 alice two_recipients 999999 200 27
     sig_r sig_s 10000 (ref_state 1000000) = Inl InvalidFeeAmount"
proof -
  have ne: "sum_amounts two_recipients + unat (10000 :: uint256) \<noteq> unat (999999 :: uint256)"
    by (simp add: two_recipients_sum)
  have ok: "bulk_inputs_ok alice two_recipients 999999 10000"
    by (simp add: bulk_inputs_ok_def two_recipients_sum)
  have t: "(100 :: uint256) \<le> 200" by simp
  from sum_law_enforced [OF ne, where owner = alice and E = ref_env and now = 100
      and deadline = 200 and v = 27 and r = sig_r and s = sig_s and \<sigma> = "ref_state 1000000"]
    ok t
  show ?thesis by simp
qed

text \<open>
  The claim as stated fails: the deadline check precedes the sum check, so the request
  of the scenario, submitted after its deadline, is reported as \<open>PermitExpired\<close>.
\<close>

theorem sum_law_enforced_counterexample:
  "sum_amounts two_recipients + unat (10000 :: uint256) \<noteq> unat (999999 :: uint256) \<and>
   facilitateBulkTransferWithPermit ref_env 201 alice two_recipients 999999 200 27 sig_r sig_s
     10000 (ref_state 1000000) = Inl PermitExpired"
  by (simp add: two_recipients_sum facilitateBulkTransferWithPermit_def)

subsection \<open>Runs of the reference scenario\<close>

text \<open>
  The scenario of the specification: the holder has 1,000,000 units and authorises
  1,000,000 with a fee of 10,000. The single transfer succeeds and consumes the
  fingerprint.
\<close>

lemma single_run_ok: "fst (transact single_call (ref_state 1000000)) = None"
  by (simp add: facilitateTransferWithPermit_def ref_defs)

lemma ns_run_ok: "fst (transact ns_call (ref_state 1000000)) = None"
  by (simp add: facilitateTransferWithNonStandardPermit_def ref_defs)

lemma bulk_run_ok: "fst (transact bulk_call (ref_state 1000000)) = None"
  by (simp add: facilitateBulkTransferWithPermit_def ref_defs)

lemma bulk_ns_run_ok: "fst (transact bulk_ns_call (ref_state 1000000)) = None"
  by (simp add: facilitateBulkTransferWithNonStandardPermit_def ref_defs)

lemma bulk_run_balances:
  "balances (ledger (snd (transact bulk_call (ref_state 1000000)))) alice = 0 \<and>
   balances (ledger (snd (transact bulk_call (ref_state 1000000)))) bob = 600000 \<and>
   balances (ledger (snd (transact bulk_call (ref_state 1000000)))) carol = 390000 \<and>
   balances (ledger (snd (transact bulk_call (ref_state 1000000)))) 0xFEE = 10000"
  by (simp add: facilitateBulkTransferWithPermit_def ref_defs)

lemma transact_None: "fst (transact call \<sigma>) = None \<Longrightarrow> call \<sigma> = Inr (snd (transact call \<sigma>))"
  by (cases "call \<sigma>") (simp_all add: transact_def)

lemma single_run_used:
  "usedPermits (snd (transact single_call (ref_state 1000000)))
     (calculatePermitHash ref_env alice 1000000 200 27 sig_r sig_s)"
  by (simp add: facilitateTransferWithPermit_def calculatePermitHash_def ref_defs)

lemma single_run_balances:
  "balances (ledger (snd (transact single_call (ref_state 1000000)))) alice = 0 \<and>
   balances (ledger (snd (transact single_call (ref_state 1000000)))) bob = 990000 \<and>
   balances (ledger (snd (transact single_call (ref_state 1000000)))) 0xFEE = 10000"
  by (simp add: facilitateTransferWithPermit_def ref_defs)

subsection \<open>Expiry before replay\<close>

lemma single_expired_never_used:
  "deadline < now \<Longrightarrow>
   facilitateTransferWithPermit E now owner to' value deadline v r s feeAmount \<sigma>
     \<noteq> Inl PermitAlreadyUsed"
  using single_used_only_if [of E now owner to' "value" deadline v r s feeAmount \<sigma>] by auto

lemma ns_expired_never_used:
  "deadline < now \<Longrightarrow>
   facilitateTransferWithNonStandardPermit E now owner to' value deadline v r s feeAmount \<sigma>
     \<noteq> Inl PermitAlreadyUsed"
  using ns_used_only_if [of E now owner to' "value" deadline v r s feeAmount \<sigma>] by auto

lemma bulk_expired:
  "owner \<noteq> 0 \<Longrightarrow> recipients \<noteq> [] \<Longrightarrow> totalValue \<noteq> 0 \<Longrightarrow> feeAmount < totalValue \<Longrightarrow>
   deadline < now \<Longrightarrow>
   facilitateBulkTransferWithPermit E now owner recipients totalValue deadline v r s feeAmount \<sigma>
     = Inl PermitExpired"
  by (simp add: facilitateBulkTransferWithPermit_def not_less not_le)

lemma bulk_ns_expired:
  "owner \<noteq> 0 \<Longrightarrow> recipients \<noteq> [] \<Longrightarrow> totalValue \<noteq> 0 \<Longrightarrow> feeAmount < totalValue \<Longrightarrow>
   deadline < now \<Longrightarrow>
   facilitateBulkTransferWithNonStandardPermit E now owner recipients totalValue deadline v r s
     feeAmount \<sigma> = Inl PermitExpired"
  by (simp add: facilitateBulkTransferWithNonStandardPermit_def not_less not_le)

lemma bulk_ns_expired_never_used:
  "deadline < now \<Longrightarrow>
   facilitateBulkTransferWithNonStandardPermit E now owner recipients totalValue deadline v r s
     feeAmount \<sigma> \<noteq> Inl PermitAlreadyUsed"
  using bulk_ns_used_only_if [of E now owner recipients totalValue deadline v r s feeAmount \<sigma>]
  by auto

text \<open>
  Claim C3. In all four functions the deadline check comes before the fingerprint is
  computed and looked up. So a request whose deadline has passed is never answered with
  \<open>PermitAlreadyUsed\<close>, whatever the registry holds and so also when its fingerprint is
  marked used. It is answered with \<open>PermitExpired\<close> as soon as it reaches the deadline
  check, which is the fourth step of validation for a single request (after the
  null-address, zero-value and fee guards) and the fifth for a bulk request (after the
  null-owner, empty-list, zero-value and fee guards).
\<close>

theorem expiry_precedes_replay:
  assumes "deadline < now"
  shows "facilitateTransferWithPermit E now owner to' totalValue deadline v r s feeAmount \<sigma>
           \<noteq> Inl PermitAlreadyUsed \<and>
         facilitateTransferWithNonStandardPermit E now owner to' totalValue deadline v r s
           feeAmount \<sigma> \<noteq> Inl PermitAlreadyUsed \<and>
         facilitateBulkTransferWithPermit E now owner recipients totalValue deadline v r s
           feeAmount \<sigma> \<noteq> Inl PermitAlreadyUsed \<and>
         facilitateBulkTransferWithNonStandardPermit E now owner recipients totalValue deadline
           v r s feeAmount \<sigma> \<noteq> Inl PermitAlreadyUsed \<and>
         (single_inputs_ok owner to' totalValue feeAmount \<longrightarrow>
            facilitateTransferWithPermit E now owner to' totalValue deadline v r s feeAmount \<sigma>
              = Inl PermitExpired \<and>
            facilitateTransferWithNonStandardPermit E now owner to' totalValue deadline v r s
              feeAmount \<sigma> = Inl PermitExpired) \<and>
         (owner \<noteq> 0 \<and> recipients \<noteq> [] \<and> totalValue \<noteq> 0 \<and> feeAmount < totalValue \<longrightarrow>
            facilitateBulkTransferWithPermit E now owner recipients totalValue deadline v r s
              feeAmount \<sigma> = Inl PermitExpired \<and>
            facilitateBulkTransferWithNonStandardPermit E now owner recipients totalValue deadline
              v r s feeAmount \<sigma> = Inl PermitExpired)"
  using assms
  by (simp add: single_expired_never_used ns_expired_never_used single_expired ns_expired
      bulk_never_used bulk_ns_expired_never_used bulk_expired bulk_ns_expired)

text \<open>
  The witness submits the request of the scenario after its deadline, as a single and as
  a bulk request, in the state its execution as a single request left, where the
  fingerprint of the single request is marked.
\<close>

theorem expiry_precedes_replay_witness:
  "isPermitUsed (snd (transact single_call (ref_state 1000000)))
     (calculatePermitHash ref_env alice 1000000 200 27 sig_r sig_s) \<and>
   facilitateTransferWithPermit ref_env 201 alice bob 1000000 200 27 sig_r sig_s 10000
     (snd (transact single_call (ref_state 1000000))) = Inl PermitExpired \<and>
   facilitateTransferWithNonStandardPermit ref_env 201 alice bob 1000000 200 27 sig_r sig_s 10000
     (snd (transact single_call (ref_state 1000000))) = Inl PermitExpired \<and>
   facilitateBulkTransferWithPermit ref_env 201 alice two_recipients 1000000 200 27 sig_r sig_s
     10000 (snd (transact single_call (ref_state 1000000))) = Inl PermitExpired \<and>
   facilitateBulkTransferWithNonStandardPermit ref_env 201 alice two_recipients 1000000 200 27
     sig_r sig_s 10000 (snd (transact single_call (ref_state 1000000))) = Inl PermitExpired"
proof -
  have late: "(200 :: uint256) < 201" by simp
  have ok: "single_inputs_ok alice bob 1000000 10000"
    by (simp add: single_inputs_ok_def)
  have ok': "alice \<noteq> 0 \<and> two_recipients \<noteq> [] \<and> (1000000 :: uint256) \<noteq> 0
      \<and> (10000 :: uint256) < 1000000"
    by simp
  from expiry_precedes_replay [OF late, where owner = alice and to' = bob
      and totalValue = 1000000 and feeAmount = 10000 and E = ref_env and v = 27 and r = sig_r
      and s = sig_s and recipients = two_recipients
      and \<sigma> = "snd (transact single_call (ref_state 1000000))"] ok ok'
    single_run_used
  show ?thesis by (simp add: isPermitUsed_def)
qed

subsection \<open>Insufficient balance\<close>

text \<open>
  Claim C2, as the code has it. When the owner's balance is below the total value and
  the request passes the earlier checks with an unmarked fingerprint, the call reverts
  with \<open>InsufficientBalance\<close>. The revert undoes the registry write made just before the
  balance check, so the state after the call is the state before it, the fingerprint is
  not marked, and the same request submitted again is answered with
  \<open>InsufficientBalance\<close> again.
\<close>

theorem insufficient_balance_reverts:
  assumes low: "balanceOf (usdc E) (ledger \<sigma>) owner < totalValue"
    and t: "now \<le> deadline"
  shows "(single_inputs_ok owner to' totalValue feeAmount \<and>
            \<not> isPermitUsed \<sigma> (calculatePermitHash E owner totalValue deadline v r s) \<longrightarrow>
            transact (facilitateTransferWithPermit E now owner to' totalValue deadline v r s
              feeAmount) \<sigma> = (Some InsufficientBalance, \<sigma>)) \<and>
         (single_inputs_ok owner to' totalValue feeAmount \<and>
            \<not> isPermitUsed \<sigma> (nonStandardPermitHash E owner totalValue deadline
                  (nonces (usdc E) (ledger \<sigma>) owner) v r s) \<longrightarrow>
            transact (facilitateTransferWithNonStandardPermit E now owner to' totalValue deadline
              v r s feeAmount) \<sigma> = (Some InsufficientBalance, \<sigma>)) \<and>
         (bulk_inputs_ok owner recipients totalValue feeAmount \<and>
            sum_amounts recipients + unat feeAmount = unat totalValue \<longrightarrow>
            transact (facilitateBulkTransferWithPermit E now owner recipients totalValue deadline
              v r s feeAmount) \<sigma> = (Some InsufficientBalance, \<sigma>)) \<and>
         (bulk_inputs_ok owner recipients totalValue feeAmount \<and>
            sum_amounts recipients + unat feeAmount = unat totalValue \<and>
            \<not> isPermitUsed \<sigma> (nonStandardBulkPermitHash E owner totalValue deadline
                  (nonces (usdc E) (ledger \<sigma>) owner) (of_nat (length recipients))) \<longrightarrow>
            transact (facilitateBulkTransferWithNonStandardPermit E now owner recipients
              totalValue deadline v r s feeAmount) \<sigma> = (Some InsufficientBalance, \<sigma>))"
  using low t
  by (simp add: isPermitUsed_def transact_Inl single_insufficient ns_insufficient
      bulk_reaches_balance bulk_ns_insufficient)

theorem insufficient_balance_reverts_witness:
  "transact single_call (ref_state 500000) = (Some InsufficientBalance, ref_state 500000) \<and>
   transact ns_call (ref_state 500000) = (Some InsufficientBalance, ref_state 500000) \<and>
   transact bulk_call (ref_state 500000) = (Some InsufficientBalance, ref_state 500000) \<and>
   transact bulk_ns_call (ref_state 500000) = (Some InsufficientBalance, ref_state 500000)"
proof -
  have low: "balanceOf (usdc ref_env) (ledger (ref_state 500000)) alice < 1000000"
    by (simp add: ref_defs)
  have t: "(100 :: uint256) \<le> 200" by simp
  have ok1: "single_inputs_ok alice bob 1000000 10000"
    by (simp add: single_inputs_ok_def)
  have ok2: "bulk_inputs_ok alice two_recipients 1000000 10000"
    by (simp add: bulk_inputs_ok_def two_recipients_sum)
  have law: "sum_amounts two_recipients + unat (10000 :: uint256) = unat (1000000 :: uint256)"
    by (simp add: two_recipients_sum)
  have unused: "\<not> isPermitUsed (ref_state 500000) h" for h
    by (simp add: isPermitUsed_def ref_state_def)
  from insufficient_balance_reverts [OF low t, where to' = bob and feeAmount = 10000
      and v = 27 and r = sig_r and s = sig_s and recipients = two_recipients]
    ok1 ok2 law unused
  show ?thesis by simp
qed

text \<open>
  The claim as stated fails. With a balance of 500,000 and a total value of 1,000,000
  the call reverts with \<open>InsufficientBalance\<close>; afterwards the fingerprint is not marked,
  and the identical retry reverts with \<open>InsufficientBalance\<close>, not
  \<open>PermitAlreadyUsed\<close>.
\<close>

theorem insufficient_balance_reverts_counterexample:
  "fst (transact single_call (ref_state 500000)) = Some InsufficientBalance \<and>
   \<not> isPermitUsed (snd (transact single_call (ref_state 500000)))
       (calculatePermitHash ref_env alice 1000000 200 27 sig_r sig_s) \<and>
   fst (transact single_call (snd (transact single_call (ref_state 500000))))
     = Some InsufficientBalance"
proof -
  have run: "single_call (ref_state 500000) = Inl InsufficientBalance"
    by (simp add: facilitateTransferWithPermit_def ref_defs)
  then have "transact single_call (ref_state 500000) = (Some InsufficientBalance, ref_state 500000)"
    by (rule transact_Inl)
  then show ?thesis by (simp add: isPermitUsed_def ref_state_def)
qed

subsection \<open>The order and the amounts of the movements\<close>

text \<open>
  Claim C6. A transfer that returns has run the token's \<open>permit\<close> and then exactly the
  movements the specification lists, each a \<open>transferFrom\<close> out of the owner's account,
  in this order: the fee to the fee collector, left out when the fee is zero, and then
  \<open>totalValue - feeAmount\<close> to the recipient (single) or every recipient's own amount in
  list order (bulk). The fee is below the total value, so the subtraction does not wrap.
  The contract does not look at the \<open>bool\<close> a \<open>transferFrom\<close> returns: what is proved
  is which movements it orders from the ledger.
\<close>

theorem fee_then_recipients:
  "(facilitateTransferWithPermit E now owner to' totalValue deadline v r s feeAmount \<sigma>a
      = Inr \<sigma>a' \<longrightarrow>
      feeAmount < totalValue \<and>
      (\<exists>t. permit (usdc E) (ledger \<sigma>a) now owner (this E) totalValue deadline v r s = Some t \<and>
           move_all E owner (single_movements (feeCollector \<sigma>a) to' totalValue feeAmount) t
             = Some (ledger \<sigma>a'))) \<and>
   (facilitateTransferWithNonStandardPermit E now owner to' totalValue deadline v r s feeAmount \<sigma>b
      = Inr \<sigma>b' \<longrightarrow>
      feeAmount < totalValue \<and>
      (\<exists>t. permit (usdc E) (ledger \<sigma>b) now owner (this E) totalValue deadline v r s = Some t \<and>
           move_all E owner (single_movements (feeCollector \<sigma>b) to' totalValue feeAmount) t
             = Some (ledger \<sigma>b'))) \<and>
   (facilitateBulkTransferWithPermit E now owner recipients totalValue deadline v r s feeAmount \<sigma>c
      = Inr \<sigma>c' \<longrightarrow>
      (\<exists>t. permit (usdc E) (ledger \<sigma>c) now owner (this E) totalValue deadline v r s = Some t \<and>
           move_all E owner (bulk_movements (feeCollector \<sigma>c) recipients feeAmount) t
             = Some (ledger \<sigma>c'))) \<and>
   (facilitateBulkTransferWithNonStandardPermit E now owner recipients totalValue deadline v r s
      feeAmount \<sigma>d = Inr \<sigma>d' \<longrightarrow>
      (\<exists>t. permit (usdc E) (ledger \<sigma>d) now owner (this E) totalValue deadline v r s = Some t \<and>
           move_all E owner (bulk_movements (feeCollector \<sigma>d) recipients feeAmount) t
             = Some (ledger \<sigma>d')))"
proof (intro conjI impI)
  assume "facilitateTransferWithPermit E now owner to' totalValue deadline v r s feeAmount \<sigma>a
      = Inr \<sigma>a'"
  from single_success [OF this]
  show "feeAmount < totalValue"
    and "\<exists>t. permit (usdc E) (ledger \<sigma>a) now owner (this E) totalValue deadline v r s = Some t \<and>
           move_all E owner (single_movements (feeCollector \<sigma>a) to' totalValue feeAmount) t
             = Some (ledger \<sigma>a')"
    by (simp_all add: single_inputs_ok_def)
next
  assume "facilitateTransferWithNonStandardPermit E now owner to' totalValue deadline v r s
      feeAmount \<sigma>b = Inr \<sigma>b'"
  from ns_success [OF this]
  show "feeAmount < totalValue"
    and "\<exists>t. permit (usdc E) (ledger \<sigma>b) now owner (this E) totalValue deadline v r s = Some t \<and>
           move_all E owner (single_movements (feeCollector \<sigma>b) to' totalValue feeAmount) t
             = Some (ledger \<sigma>b')"
    by (simp_all add: single_inputs_ok_def)
next
  assume "facilitateBulkTransferWithPermit E now owner recipients totalValue deadline v r s
      feeAmount \<sigma>c = Inr \<sigma>c'"
  from bulk_success [OF this]
  show "\<exists>t. permit (usdc E) (ledger \<sigma>c) now owner (this E) totalValue deadline v r s = Some t \<and>
           move_all E owner (bulk_movements (feeCollector \<sigma>c) recipients feeAmount) t
             = Some (ledger \<sigma>c')"
    by simp
next
  assume "facilitateBulkTransferWithNonStandardPermit E now owner recipients totalValue deadline
      v r s feeAmount \<sigma>d = Inr \<sigma>d'"
  from bulk_ns_success [OF this]
  show "\<exists>t. permit (usdc E) (ledger \<sigma>d) now owner (this E) totalValue deadline v r s = Some t \<and>
           move_all E owner (bulk_movements (feeCollector \<sigma>d) recipients feeAmount) t
             = Some (ledger \<sigma>d')"
    by simp
qed

text \<open>
  The witness is the scenario: each of the four functions executes the request, and on the
  reference ledger the single transfer leaves 10,000 with the fee collector, 990,000 with
  the recipient and nothing with the owner.
\<close>

theorem fee_then_recipients_witness:
  "(\<exists>t. permit (usdc ref_env) (ledger (ref_state 1000000)) 100 alice (this ref_env) 1000000 200
          27 sig_r sig_s = Some t \<and>
        move_all ref_env alice
          (single_movements (feeCollector (ref_state 1000000)) bob 1000000 10000) t
          = Some (ledger (snd (transact single_call (ref_state 1000000))))) \<and>
   (\<exists>t. permit (usdc ref_env) (ledger (ref_state 1000000)) 100 alice (this ref_env) 1000000 200
          27 sig_r sig_s = Some t \<and>
        move_all ref_env alice
          (single_movements (feeCollector (ref_state 1000000)) bob 1000000 10000) t
          = Some (ledger (snd (transact ns_call (ref_state 1000000))))) \<and>
   (\<exists>t. permit (usdc ref_env) (ledger (ref_state 1000000)) 100 alice (this ref_env) 1000000 200
          27 sig_r sig_s = Some t \<and>
        move_all ref_env alice
          (bulk_movements (feeCollector (ref_state 1000000)) two_recipients 10000) t
          = Some (ledger (snd (transact bulk_call (ref_state 1000000))))) \<and>
   (\<exists>t. permit (usdc ref_env) (ledger (ref_state 1000000)) 100 alice (this ref_env) 1000000 200
          27 sig_r sig_s = Some t \<and>
        move_all ref_env alice
          (bulk_movements (feeCollector (ref_state 1000000)) two_recipients 10000) t
          = Some (ledger (snd (transact bulk_ns_call (ref_state 1000000))))) \<and>
   balances (ledger (snd (transact single_call (ref_state 1000000)))) 0xFEE = 10000 \<and>
   balances (ledger (snd (transact single_call (ref_state 1000000)))) bob = 990000 \<and>
   balances (ledger (snd (transact single_call (ref_state 1000000)))) alice = 0"
proof -
  note runs = transact_None [OF single_run_ok] transact_None [OF ns_run_ok]
    transact_None [OF bulk_run_ok] transact_None [OF bulk_ns_run_ok]
  from fee_then_recipients [where E = ref_env and now = 100 and owner = alice and to' = bob
      and totalValue = 1000000 and deadline = 200 and v = 27 and r = sig_r and s = sig_s
      and feeAmount = 10000 and recipients = two_recipients
      and \<sigma>a = "ref_state 1000000" and \<sigma>b = "ref_state 1000000"
      and \<sigma>c = "ref_state 1000000" and \<sigma>d = "ref_state 1000000"
      and \<sigma>a' = "snd (transact single_call (ref_state 1000000))"
      and \<sigma>b' = "snd (transact ns_call (ref_state 1000000))"
      and \<sigma>c' = "snd (transact bulk_call (ref_state 1000000))"
      and \<sigma>d' = "snd (transact bulk_ns_call (ref_state 1000000))"]
    runs single_run_balances
  show ?thesis by blast
qed

subsection \<open>The length of the recipient list\<close>

lemma replicate_numeral: "replicate (numeral k) x = x # replicate (pred_numeral k) x"
  by (simp add: numeral_eq_Suc)

lemma many_recipients_sum: "sum_amounts many_recipients = 510"
  by (simp add: sum_amounts_def sum_list_replicate)

lemma many_recipients_ok: "bulk_inputs_ok alice many_recipients 520 10"
  by (simp add: bulk_inputs_ok_def many_recipients_sum list_all_iff)

lemma many_run_ok: "fst (transact many_call (ref_state 520)) = None"
  by (simp add: facilitateBulkTransferWithPermit_def ref_defs replicate_numeral)

text \<open>
  Claim C7, as the code has it. The contract has no maximum batch size. The only check
  on the length of the recipient list is that it is not empty; it is the second guard,
  after the null-owner guard and before everything else. A bulk request that meets the
  conditions on its fields passes input validation whatever the length of its list.
\<close>

theorem only_emptiness_checked:
  "(facilitateBulkTransferWithPermit E now owner recipients totalValue deadline v r s feeAmount \<sigma>
      = Inl EmptyRecipientList \<longleftrightarrow> owner \<noteq> 0 \<and> recipients = []) \<and>
   (facilitateBulkTransferWithNonStandardPermit E now owner recipients totalValue deadline v r s
      feeAmount \<sigma> = Inl EmptyRecipientList \<longleftrightarrow> owner \<noteq> 0 \<and> recipients = []) \<and>
   (bulk_inputs_ok owner recipients totalValue feeAmount \<and> now \<le> deadline \<and>
      sum_amounts recipients + unat feeAmount = unat totalValue \<longrightarrow>
      passed_validation (facilitateBulkTransferWithPermit E now owner recipients totalValue
        deadline v r s feeAmount \<sigma>) \<and>
      passed_validation (facilitateBulkTransferWithNonStandardPermit E now owner recipients
        totalValue deadline v r s feeAmount \<sigma>))"
  by (simp add: bulk_empty_iff bulk_ns_empty_iff bulk_passes_validation
      bulk_ns_passes_validation)

theorem only_emptiness_checked_witness:
  "length many_recipients = 51 \<and>
   passed_validation (many_call (ref_state 520)) \<and>
   passed_validation (many_ns_call (ref_state 520))"
proof -
  have law: "sum_amounts many_recipients + unat (10 :: uint256) = unat (520 :: uint256)"
    by (simp add: many_recipients_sum)
  have t: "(100 :: uint256) \<le> 200" by simp
  from only_emptiness_checked [where owner = alice and recipients = many_recipients
      and totalValue = 520 and feeAmount = 10 and now = 100 and deadline = 200
      and E = ref_env and v = 27 and r = sig_r and s = 2800 and \<sigma> = "ref_state 520"]
    many_recipients_ok law t
  show ?thesis by simp
qed

text \<open>
  The claim fails on the contract: a request with 51 recipients, one more than the
  50 the form allows, is executed.
\<close>

theorem only_emptiness_checked_counterexample:
  "length many_recipients = 51 \<and> fst (transact many_call (ref_state 520)) = None"
  using many_run_ok by simp

subsection \<open>The fingerprint of a nonce-bound bulk request\<close>

text \<open>
  Claim C10. A bulk request executed in nonce-bound mode marks the hash of six values:
  the owner, the contract's address, the total value, the deadline, the owner's nonce on
  the ledger at that moment and the number of recipients. The recipients, their amounts,
  the fee and the signature are not hashed. So when that hash is marked, any bulk request
  with the same owner, total value, deadline and number of recipients that arrives while
  the owner's nonce is the same is refused with \<open>PermitAlreadyUsed\<close> as soon as it
  passes input validation (its fields are valid, its sum law holds and its deadline has
  not passed), whatever its recipients, amounts, fee and signature are; and it is never
  executed.
\<close>

theorem bulk_fingerprint_ignores_recipients:
  "(facilitateBulkTransferWithNonStandardPermit E now owner recipients totalValue deadline v r s
      feeAmount \<sigma>a = Inr \<sigma>a' \<longrightarrow>
      usedPermits \<sigma>a' = (usedPermits \<sigma>a)
        (nonStandardBulkPermitHash E owner totalValue deadline
           (nonces (usdc E) (ledger \<sigma>a) owner) (of_nat (length recipients)) := True)) \<and>
   (length recipients' = length recipients \<and>
    isPermitUsed \<sigma> (nonStandardBulkPermitHash E owner totalValue deadline
        (nonces (usdc E) (ledger \<sigma>) owner) (of_nat (length recipients))) \<longrightarrow>
      (\<exists>e. facilitateBulkTransferWithNonStandardPermit E now' owner recipients' totalValue
             deadline v' r' s' feeAmount' \<sigma> = Inl e) \<and>
      (bulk_inputs_ok owner recipients' totalValue feeAmount' \<and>
       sum_amounts recipients' + unat feeAmount' = unat totalValue \<and> now' \<le> deadline \<longrightarrow>
         facilitateBulkTransferWithNonStandardPermit E now' owner recipients' totalValue
           deadline v' r' s' feeAmount' \<sigma> = Inl PermitAlreadyUsed))"
proof (intro conjI impI)
  assume "facilitateBulkTransferWithNonStandardPermit E now owner recipients totalValue deadline
      v r s feeAmount \<sigma>a = Inr \<sigma>a'"
  from bulk_ns_success [OF this]
  show "usedPermits \<sigma>a' = (usedPermits \<sigma>a)
        (nonStandardBulkPermitHash E owner totalValue deadline
           (nonces (usdc E) (ledger \<sigma>a) owner) (of_nat (length recipients)) := True)"
    by blast
next
  assume a: "length recipients' = length recipients \<and>
    isPermitUsed \<sigma> (nonStandardBulkPermitHash E owner totalValue deadline
        (nonces (usdc E) (ledger \<sigma>) owner) (of_nat (length recipients)))"
  then have used: "usedPermits \<sigma> (nonStandardBulkPermitHash E owner totalValue deadline
        (nonces (usdc E) (ledger \<sigma>) owner) (of_nat (length recipients')))"
    by (simp add: isPermitUsed_def)
  show "\<exists>e. facilitateBulkTransferWithNonStandardPermit E now' owner recipients' totalValue
             deadline v' r' s' feeAmount' \<sigma> = Inl e"
  proof (cases "facilitateBulkTransferWithNonStandardPermit E now' owner recipients' totalValue
             deadline v' r' s' feeAmount' \<sigma>")
    case (Inl e)
    then show ?thesis by blast
  next
    case (Inr \<sigma>')
    from bulk_ns_success [OF Inr] used show ?thesis by blast
  qed
  assume "bulk_inputs_ok owner recipients' totalValue feeAmount' \<and>
       sum_amounts recipients' + unat feeAmount' = unat totalValue \<and> now' \<le> deadline"
  with used
  show "facilitateBulkTransferWithNonStandardPermit E now' owner recipients' totalValue
           deadline v' r' s' feeAmount' \<sigma> = Inl PermitAlreadyUsed"
    by (simp add: bulk_ns_used)
qed

text \<open>
  The witness takes the registry that the execution of the scenario's bulk request
  leaves, on a ledger where the owner's nonce still has the value 0 it had at that
  execution, and submits a request with other recipients, another split of the amounts
  and another signature. (The reference ledger, like every EIP-2612 token, advances the
  nonce with each accepted permit, so there the premise does not arise from the first
  execution itself.)
\<close>

theorem bulk_fingerprint_ignores_recipients_witness:
  "bulk_ns_registry = (usedPermits (ref_state 1000000))
       (nonStandardBulkPermitHash ref_env alice 1000000 200 0 2 := True) \<and>
   facilitateBulkTransferWithNonStandardPermit ref_env 150 alice other_recipients 1000000 200
       28 1 2 10000 (ref_state 1000000\<lparr>usedPermits := bulk_ns_registry\<rparr>)
     = Inl PermitAlreadyUsed"
proof -
  let ?\<sigma> = "ref_state 1000000\<lparr>usedPermits := bulk_ns_registry\<rparr>"
  have nonce0: "nonces (usdc ref_env) (ledger (ref_state 1000000)) alice = 0"
    and nonce: "nonces (usdc ref_env) (ledger ?\<sigma>) alice = 0"
    by (simp_all add: ref_defs)
  have len: "length other_recipients = length two_recipients" by simp
  have ok: "bulk_inputs_ok alice other_recipients 1000000 10000"
    by (simp add: bulk_inputs_ok_def sum_amounts_def)
  have law: "sum_amounts other_recipients + unat (10000 :: uint256) = unat (1000000 :: uint256)"
    by (simp add: sum_amounts_def)
  have t: "(150 :: uint256) \<le> 200" by simp
  note inst = bulk_fingerprint_ignores_recipients [where E = ref_env and now = 100
      and owner = alice and recipients = two_recipients and totalValue = 1000000
      and deadline = 200 and v = 27 and r = sig_r and s = sig_s and feeAmount = 10000
      and \<sigma>a = "ref_state 1000000"
      and \<sigma>a' = "snd (transact bulk_ns_call (ref_state 1000000))"
      and recipients' = other_recipients and \<sigma> = ?\<sigma> and now' = 150
      and v' = 28 and r' = 1 and s' = 2 and feeAmount' = 10000]
  from inst transact_None [OF bulk_ns_run_ok]
  have recorded: "bulk_ns_registry = (usedPermits (ref_state 1000000))
       (nonStandardBulkPermitHash ref_env alice 1000000 200 0 2 := True)"
    by (simp add: nonce0)
  then have used: "isPermitUsed ?\<sigma> (nonStandardBulkPermitHash ref_env alice 1000000 200
        (nonces (usdc ref_env) (ledger ?\<sigma>) alice) (of_nat (length two_recipients)))"
    by (simp add: isPermitUsed_def nonce0)
  from inst len used ok law t
  have "facilitateBulkTransferWithNonStandardPermit ref_env 150 alice other_recipients 1000000
       200 28 1 2 10000 ?\<sigma> = Inl PermitAlreadyUsed"
    by blast
  with recorded show ?thesis by blast
qed

subsection \<open>Replay\<close>

lemma fingerprint_deadline_distinct:
  assumes "deadline' \<noteq> deadline"
    and "collision_free E (permitPacked E owner value deadline' v r s)
           (permitPacked E owner value deadline v r s)"
  shows "calculatePermitHash E owner value deadline' v r s
           \<noteq> calculatePermitHash E owner value deadline v r s"
  using assms permitPacked_deadline [of E owner "value" deadline' v r s deadline]
  by (auto simp: calculatePermitHash_packed collision_free_def)

lemma fingerprint_value_distinct:
  assumes "value' \<noteq> value"
    and "collision_free E (permitPacked E owner value' deadline v r s)
           (permitPacked E owner value deadline v r s)"
  shows "calculatePermitHash E owner value' deadline v r s
           \<noteq> calculatePermitHash E owner value deadline v r s"
  using assms permitPacked_value [of E owner value' deadline v r s "value"]
  by (auto simp: calculatePermitHash_packed collision_free_def)

lemma single_replayed:
  assumes first: "facilitateTransferWithPermit E now owner to' value deadline v r s feeAmount \<sigma>
            = Inr \<sigma>'"
  shows "isPermitUsed \<sigma>' (calculatePermitHash E owner value deadline v r s)"
    and "now' \<le> deadline \<Longrightarrow>
         facilitateTransferWithPermit E now' owner to' value deadline v r s feeAmount \<sigma>'
           = Inl PermitAlreadyUsed"
proof -
  from single_success [OF first]
  have ok: "single_inputs_ok owner to' value feeAmount"
    and reg: "usedPermits \<sigma>' =
      (usedPermits \<sigma>)(calculatePermitHash E owner value deadline v r s := True)"
    by blast+
  from reg show used: "isPermitUsed \<sigma>' (calculatePermitHash E owner value deadline v r s)"
    by (simp add: isPermitUsed_def)
  assume "now' \<le> deadline"
  with ok used
  show "facilitateTransferWithPermit E now' owner to' value deadline v r s feeAmount \<sigma>'
           = Inl PermitAlreadyUsed"
    by (simp add: single_used isPermitUsed_def)
qed

lemma single_other_fingerprint:
  assumes first: "facilitateTransferWithPermit E now owner to' value deadline v r s feeAmount \<sigma>
            = Inr \<sigma>'"
    and other: "calculatePermitHash E owner value2 deadline2 v r s
            \<noteq> calculatePermitHash E owner value deadline v r s"
  shows "isPermitUsed \<sigma>' (calculatePermitHash E owner value2 deadline2 v r s)
           \<longleftrightarrow> isPermitUsed \<sigma> (calculatePermitHash E owner value2 deadline2 v r s)"
    and "\<not> isPermitUsed \<sigma> (calculatePermitHash E owner value2 deadline2 v r s) \<Longrightarrow>
         facilitateTransferWithPermit E now' owner to' value2 deadline2 v r s feeAmount \<sigma>'
           \<noteq> Inl PermitAlreadyUsed"
proof -
  from single_success [OF first]
  have reg: "usedPermits \<sigma>' =
      (usedPermits \<sigma>)(calculatePermitHash E owner value deadline v r s := True)"
    by blast
  with other
  show same: "isPermitUsed \<sigma>' (calculatePermitHash E owner value2 deadline2 v r s)
           \<longleftrightarrow> isPermitUsed \<sigma> (calculatePermitHash E owner value2 deadline2 v r s)"
    by (simp add: isPermitUsed_def)
  assume "\<not> isPermitUsed \<sigma> (calculatePermitHash E owner value2 deadline2 v r s)"
  with same have "\<not> usedPermits \<sigma>' (calculatePermitHash E owner value2 deadline2 v r s)"
    by (simp add: isPermitUsed_def)
  then show "facilitateTransferWithPermit E now' owner to' value2 deadline2 v r s feeAmount \<sigma>'
           \<noteq> Inl PermitAlreadyUsed"
    using single_used_only_if [of E now' owner to' value2 deadline2 v r s feeAmount \<sigma>']
    by blast
qed

lemma ns_used_iff:
  assumes "single_inputs_ok owner to' value feeAmount" and "now \<le> deadline"
  shows "facilitateTransferWithNonStandardPermit E now owner to' value deadline v r s feeAmount \<sigma>
           = Inl PermitAlreadyUsed \<longleftrightarrow>
         isPermitUsed \<sigma> (nonStandardPermitHash E owner value deadline
           (nonces (usdc E) (ledger \<sigma>) owner) v r s)"
  using assms ns_used [of owner to' "value" feeAmount now deadline \<sigma> E v r s]
    ns_used_only_if [of E now owner to' "value" deadline v r s feeAmount \<sigma>]
  by (auto simp: isPermitUsed_def)

lemma bulk_ns_used_iff:
  assumes "bulk_inputs_ok owner recipients totalValue feeAmount"
    and "sum_amounts recipients + unat feeAmount = unat totalValue"
    and "now \<le> deadline"
  shows "facilitateBulkTransferWithNonStandardPermit E now owner recipients totalValue deadline
           v r s feeAmount \<sigma> = Inl PermitAlreadyUsed \<longleftrightarrow>
         isPermitUsed \<sigma> (nonStandardBulkPermitHash E owner totalValue deadline
           (nonces (usdc E) (ledger \<sigma>) owner) (of_nat (length recipients)))"
  using assms bulk_ns_used [of owner recipients totalValue feeAmount now deadline \<sigma> E v r s]
    bulk_ns_used_only_if [of E now owner recipients totalValue deadline v r s feeAmount \<sigma>]
  by (auto simp: isPermitUsed_def)

text \<open>
  Claim C1, as the code has it. In standard single mode the fingerprint of a request is
  marked when the request is executed, and the same request submitted again before its
  deadline is refused with \<open>PermitAlreadyUsed\<close>. A request that differs only in the
  deadline, or only in the value, is hashed from a different byte string; unless
  \<open>keccak256\<close> collides on the two strings its fingerprint is a different one, the first
  execution does not mark it, and the changed request is not refused as already used.
  In the two nonce-bound modes the fingerprint that an execution marks contains the
  owner's nonce on the ledger at that moment, and a later request that passes input
  validation is refused with \<open>PermitAlreadyUsed\<close> exactly when the fingerprint taken
  with the nonce current at that later moment is marked.
\<close>

theorem replay_rejected:
  "(facilitateTransferWithPermit E now owner to' totalValue deadline v r s feeAmount \<sigma>a
      = Inr \<sigma>a' \<longrightarrow>
      isPermitUsed \<sigma>a' (calculatePermitHash E owner totalValue deadline v r s) \<and>
      (now' \<le> deadline \<longrightarrow>
         facilitateTransferWithPermit E now' owner to' totalValue deadline v r s feeAmount \<sigma>a'
           = Inl PermitAlreadyUsed) \<and>
      (deadline' \<noteq> deadline \<and>
       collision_free E (permitPacked E owner totalValue deadline' v r s)
         (permitPacked E owner totalValue deadline v r s) \<longrightarrow>
         calculatePermitHash E owner totalValue deadline' v r s
           \<noteq> calculatePermitHash E owner totalValue deadline v r s \<and>
         (\<not> isPermitUsed \<sigma>a (calculatePermitHash E owner totalValue deadline' v r s) \<longrightarrow>
            \<not> isPermitUsed \<sigma>a' (calculatePermitHash E owner totalValue deadline' v r s) \<and>
            facilitateTransferWithPermit E now' owner to' totalValue deadline' v r s feeAmount
              \<sigma>a' \<noteq> Inl PermitAlreadyUsed)) \<and>
      (totalValue' \<noteq> totalValue \<and>
       collision_free E (permitPacked E owner totalValue' deadline v r s)
         (permitPacked E owner totalValue deadline v r s) \<longrightarrow>
         calculatePermitHash E owner totalValue' deadline v r s
           \<noteq> calculatePermitHash E owner totalValue deadline v r s \<and>
         (\<not> isPermitUsed \<sigma>a (calculatePermitHash E owner totalValue' deadline v r s) \<longrightarrow>
            \<not> isPermitUsed \<sigma>a' (calculatePermitHash E owner totalValue' deadline v r s) \<and>
            facilitateTransferWithPermit E now' owner to' totalValue' deadline v r s feeAmount
              \<sigma>a' \<noteq> Inl PermitAlreadyUsed))) \<and>
   (facilitateTransferWithNonStandardPermit E now owner to' totalValue deadline v r s feeAmount
      \<sigma>b = Inr \<sigma>b' \<longrightarrow>
      isPermitUsed \<sigma>b' (nonStandardPermitHash E owner totalValue deadline
        (nonces (usdc E) (ledger \<sigma>b) owner) v r s)) \<and>
   (single_inputs_ok owner to' totalValue feeAmount \<and> now' \<le> deadline \<longrightarrow>
      (facilitateTransferWithNonStandardPermit E now' owner to' totalValue deadline v r s
         feeAmount \<sigma>c = Inl PermitAlreadyUsed \<longleftrightarrow>
       isPermitUsed \<sigma>c (nonStandardPermitHash E owner totalValue deadline
         (nonces (usdc E) (ledger \<sigma>c) owner) v r s))) \<and>
   (facilitateBulkTransferWithNonStandardPermit E now owner recipients totalValue deadline v r s
      feeAmount \<sigma>d = Inr \<sigma>d' \<longrightarrow>
      isPermitUsed \<sigma>d' (nonStandardBulkPermitHash E owner totalValue deadline
        (nonces (usdc E) (ledger \<sigma>d) owner) (of_nat (length recipients)))) \<and>
   (bulk_inputs_ok owner recipients totalValue feeAmount \<and>
    sum_amounts recipients + unat feeAmount = unat totalValue \<and> now' \<le> deadline \<longrightarrow>
      (facilitateBulkTransferWithNonStandardPermit E now' owner recipients totalValue deadline
         v r s feeAmount \<sigma>e = Inl PermitAlreadyUsed \<longleftrightarrow>
       isPermitUsed \<sigma>e (nonStandardBulkPermitHash E owner totalValue deadline
         (nonces (usdc E) (ledger \<sigma>e) owner) (of_nat (length recipients)))))"
proof (intro conjI impI)
  assume first: "facilitateTransferWithPermit E now owner to' totalValue deadline v r s
      feeAmount \<sigma>a = Inr \<sigma>a'"
  from single_replayed(1) [OF first]
  show "isPermitUsed \<sigma>a' (calculatePermitHash E owner totalValue deadline v r s)" .
  {
    assume "now' \<le> deadline"
    from single_replayed(2) [OF first this]
    show "facilitateTransferWithPermit E now' owner to' totalValue deadline v r s feeAmount \<sigma>a'
           = Inl PermitAlreadyUsed" .
  }
  {
    assume "deadline' \<noteq> deadline \<and>
       collision_free E (permitPacked E owner totalValue deadline' v r s)
         (permitPacked E owner totalValue deadline v r s)"
    then have ne: "calculatePermitHash E owner totalValue deadline' v r s
           \<noteq> calculatePermitHash E owner totalValue deadline v r s"
      by (simp add: fingerprint_deadline_distinct)
    then show "calculatePermitHash E owner totalValue deadline' v r s
           \<noteq> calculatePermitHash E owner totalValue deadline v r s" .
    assume unused: "\<not> isPermitUsed \<sigma>a (calculatePermitHash E owner totalValue deadline' v r s)"
    with single_other_fingerprint(1) [OF first ne]
    show "\<not> isPermitUsed \<sigma>a' (calculatePermitHash E owner totalValue deadline' v r s)"
      by simp
    from single_other_fingerprint(2) [OF first ne unused]
    show "facilitateTransferWithPermit E now' owner to' totalValue deadline' v r s feeAmount
              \<sigma>a' \<noteq> Inl PermitAlreadyUsed" .
  }
  {
    assume "totalValue' \<noteq> totalValue \<and>
       collision_free E (permitPacked E owner totalValue' deadline v r s)
         (permitPacked E owner totalValue deadline v r s)"
    then have ne: "calculatePermitHash E owner totalValue' deadline v r s
           \<noteq> calculatePermitHash E owner totalValue deadline v r s"
      by (simp add: fingerprint_value_distinct)
    then show "calculatePermitHash E owner totalValue' deadline v r s
           \<noteq> calculatePermitHash E owner totalValue deadline v r s" .
    assume unused: "\<not> isPermitUsed \<sigma>a (calculatePermitHash E owner totalValue' deadline v r s)"
    with single_other_fingerprint(1) [OF first ne]
    show "\<not> isPermitUsed \<sigma>a' (calculatePermitHash E owner totalValue' deadline v r s)"
      by simp
    from single_other_fingerprint(2) [OF first ne unused]
    show "facilitateTransferWithPermit E now' owner to' totalValue' deadline v r s feeAmount
              \<sigma>a' \<noteq> Inl PermitAlreadyUsed" .
  }
next
  assume "facilitateTransferWithNonStandardPermit E now owner to' totalValue deadline v r s
      feeAmount \<sigma>b = Inr \<sigma>b'"
  from ns_success [OF this]
  show "isPermitUsed \<sigma>b' (nonStandardPermitHash E owner totalValue deadline
        (nonces (usdc E) (ledger \<sigma>b) owner) v r s)"
    by (simp add: isPermitUsed_def)
next
  assume "single_inputs_ok owner to' totalValue feeAmount \<and> now' \<le> deadline"
  then show "facilitateTransferWithNonStandardPermit E now' owner to' totalValue deadline v r s
         feeAmount \<sigma>c = Inl PermitAlreadyUsed \<longleftrightarrow>
       isPermitUsed \<sigma>c (nonStandardPermitHash E owner totalValue deadline
         (nonces (usdc E) (ledger \<sigma>c) owner) v r s)"
    by (simp add: ns_used_iff)
next
  assume "facilitateBulkTransferWithNonStandardPermit E now owner recipients totalValue deadline
      v r s feeAmount \<sigma>d = Inr \<sigma>d'"
  from bulk_ns_success [OF this]
  show "isPermitUsed \<sigma>d' (nonStandardBulkPermitHash E owner totalValue deadline
        (nonces (usdc E) (ledger \<sigma>d) owner) (of_nat (length recipients)))"
    by (simp add: isPermitUsed_def)
next
  assume "bulk_inputs_ok owner recipients totalValue feeAmount \<and>
    sum_amounts recipients + unat feeAmount = unat totalValue \<and> now' \<le> deadline"
  then show "facilitateBulkTransferWithNonStandardPermit E now' owner recipients totalValue
         deadline v r s feeAmount \<sigma>e = Inl PermitAlreadyUsed \<longleftrightarrow>
       isPermitUsed \<sigma>e (nonStandardBulkPermitHash E owner totalValue deadline
         (nonces (usdc E) (ledger \<sigma>e) owner) (of_nat (length recipients)))"
    by (simp add: bulk_ns_used_iff)
qed

lemmas hash_defs =
  ref_keccak_def packed_address_def packed_uint256_def packed_bytes32_def packed_uint8_def
  be_bytes_numeral

lemma scenario_deadline_no_collision:
  "collision_free ref_env (permitPacked ref_env alice 1000000 201 27 sig_r sig_s)
     (permitPacked ref_env alice 1000000 200 27 sig_r sig_s)"
proof -
  have "ref_keccak (permitPacked ref_env alice 1000000 201 27 sig_r sig_s)
      \<noteq> ref_keccak (permitPacked ref_env alice 1000000 200 27 sig_r sig_s)"
    by (simp add: permitPacked_def ref_env_def hash_defs)
  then show ?thesis by (simp add: collision_free_def ref_env_def)
qed

lemma scenario_value_no_collision:
  "collision_free ref_env (permitPacked ref_env alice 1000001 200 27 sig_r sig_s)
     (permitPacked ref_env alice 1000000 200 27 sig_r sig_s)"
proof -
  have "ref_keccak (permitPacked ref_env alice 1000001 200 27 sig_r sig_s)
      \<noteq> ref_keccak (permitPacked ref_env alice 1000000 200 27 sig_r sig_s)"
    by (simp add: permitPacked_def ref_env_def hash_defs)
  then show ?thesis by (simp add: collision_free_def ref_env_def)
qed

text \<open>
  The witness executes the scenario's request at time 100 and submits it again at time
  150; then the same request with deadline 201 instead of 200, and with value 1,000,001
  instead of 1,000,000. For the nonce-bound modes it takes the registry their execution
  leaves, on a ledger where the owner's nonce still has the value 0.
\<close>

theorem replay_rejected_witness:
  "isPermitUsed (snd (transact single_call (ref_state 1000000)))
     (calculatePermitHash ref_env alice 1000000 200 27 sig_r sig_s) \<and>
   facilitateTransferWithPermit ref_env 150 alice bob 1000000 200 27 sig_r sig_s 10000
     (snd (transact single_call (ref_state 1000000))) = Inl PermitAlreadyUsed \<and>
   calculatePermitHash ref_env alice 1000000 201 27 sig_r sig_s
     \<noteq> calculatePermitHash ref_env alice 1000000 200 27 sig_r sig_s \<and>
   facilitateTransferWithPermit ref_env 150 alice bob 1000000 201 27 sig_r sig_s 10000
     (snd (transact single_call (ref_state 1000000))) \<noteq> Inl PermitAlreadyUsed \<and>
   calculatePermitHash ref_env alice 1000001 200 27 sig_r sig_s
     \<noteq> calculatePermitHash ref_env alice 1000000 200 27 sig_r sig_s \<and>
   facilitateTransferWithPermit ref_env 150 alice bob 1000001 200 27 sig_r sig_s 10000
     (snd (transact single_call (ref_state 1000000))) \<noteq> Inl PermitAlreadyUsed \<and>
   facilitateTransferWithNonStandardPermit ref_env 150 alice bob 1000000 200 27 sig_r sig_s 10000
     (ref_state 1000000\<lparr>usedPermits := ns_registry\<rparr>) = Inl PermitAlreadyUsed \<and>
   facilitateBulkTransferWithNonStandardPermit ref_env 150 alice two_recipients 1000000 200 27
     sig_r sig_s 10000 (ref_state 1000000\<lparr>usedPermits := bulk_ns_registry\<rparr>)
     = Inl PermitAlreadyUsed"
proof -
  have nonce0: "nonces (usdc ref_env) (ledger (ref_state 1000000)) alice = 0"
    by (simp add: ref_defs)
  have t: "(150 :: uint256) \<le> 200" by simp
  have d: "(201 :: uint256) \<noteq> 200" and x: "(1000001 :: uint256) \<noteq> 1000000" by simp_all
  have ok1: "single_inputs_ok alice bob 1000000 10000"
    by (simp add: single_inputs_ok_def)
  have ok2: "bulk_inputs_ok alice two_recipients 1000000 10000"
    by (simp add: bulk_inputs_ok_def two_recipients_sum)
  have law: "sum_amounts two_recipients + unat (10000 :: uint256) = unat (1000000 :: uint256)"
    by (simp add: two_recipients_sum)
  have unused: "\<not> isPermitUsed (ref_state 1000000) h" for h
    by (simp add: isPermitUsed_def ref_state_def)
  note inst = replay_rejected [where E = ref_env and now = 100 and owner = alice and to' = bob
      and totalValue = 1000000 and deadline = 200 and v = 27 and r = sig_r and s = sig_s
      and feeAmount = 10000 and recipients = two_recipients and now' = 150
      and deadline' = 201 and totalValue' = 1000001
      and \<sigma>a = "ref_state 1000000"
      and \<sigma>a' = "snd (transact single_call (ref_state 1000000))"
      and \<sigma>b = "ref_state 1000000"
      and \<sigma>b' = "snd (transact ns_call (ref_state 1000000))"
      and \<sigma>c = "ref_state 1000000\<lparr>usedPermits := ns_registry\<rparr>"
      and \<sigma>d = "ref_state 1000000"
      and \<sigma>d' = "snd (transact bulk_ns_call (ref_state 1000000))"
      and \<sigma>e = "ref_state 1000000\<lparr>usedPermits := bulk_ns_registry\<rparr>"]
  from inst transact_None [OF ns_run_ok]
  have "isPermitUsed (ref_state 1000000\<lparr>usedPermits := ns_registry\<rparr>)
     (nonStandardPermitHash ref_env alice 1000000 200
        (nonces (usdc ref_env) (ledger (ref_state 1000000\<lparr>usedPermits := ns_registry\<rparr>)) alice)
        27 sig_r sig_s)"
    by (simp add: isPermitUsed_def)
  with inst ok1 t
  have ns: "facilitateTransferWithNonStandardPermit ref_env 150 alice bob 1000000 200 27 sig_r
      sig_s 10000 (ref_state 1000000\<lparr>usedPermits := ns_registry\<rparr>) = Inl PermitAlreadyUsed"
    by blast
  from inst transact_None [OF bulk_ns_run_ok]
  have "isPermitUsed (ref_state 1000000\<lparr>usedPermits := bulk_ns_registry\<rparr>)
     (nonStandardBulkPermitHash ref_env alice 1000000 200
        (nonces (usdc ref_env) (ledger (ref_state 1000000\<lparr>usedPermits := bulk_ns_registry\<rparr>))
           alice)
        (of_nat (length two_recipients)))"
    by (simp add: isPermitUsed_def)
  with inst ok2 law t
  have bulk: "facilitateBulkTransferWithNonStandardPermit ref_env 150 alice two_recipients
      1000000 200 27 sig_r sig_s 10000 (ref_state 1000000\<lparr>usedPermits := bulk_ns_registry\<rparr>)
      = Inl PermitAlreadyUsed"
    by blast
  from inst transact_None [OF single_run_ok] t d x scenario_deadline_no_collision
    scenario_value_no_collision unused ns bulk
  show ?thesis by blast
qed

text \<open>
  The claim as stated fails in two ways, shown on a holder with 2,000,000 units. The
  standard bulk function keeps no fingerprint: the executed request submitted again gets
  as far as the token, which refuses the signature because the owner's nonce has
  moved on. A nonce-bound single request submitted again is hashed with the new nonce,
  passes the registry and is refused by the token in the same way.
\<close>

theorem replay_rejected_counterexample:
  "fst (transact bulk_call (ref_state 2000000)) = None \<and>
   fst (transact bulk_call (snd (transact bulk_call (ref_state 2000000))))
     = Some InvalidPermitSignature \<and>
   fst (transact ns_call (ref_state 2000000)) = None \<and>
   fst (transact ns_call (snd (transact ns_call (ref_state 2000000))))
     = Some InvalidPermitSignature"
proof -
  have "fst (transact bulk_call (ref_state 2000000)) = None"
    and "fst (transact bulk_call (snd (transact bulk_call (ref_state 2000000))))
     = Some InvalidPermitSignature"
    by (simp_all add: facilitateBulkTransferWithPermit_def ref_defs)
  moreover
  have ne: "nonStandardPermitHash ref_env alice 1000000 200 1 27 sig_r sig_s
      \<noteq> nonStandardPermitHash ref_env alice 1000000 200 0 27 sig_r sig_s"
    by (simp add: nonStandardPermitHash_def ref_env_def hash_defs)
  have "fst (transact ns_call (ref_state 2000000)) = None"
    and "fst (transact ns_call (snd (transact ns_call (ref_state 2000000))))
     = Some InvalidPermitSignature"
    by (simp_all add: facilitateTransferWithNonStandardPermit_def ref_defs
        ne [unfolded nonStandardPermitHash_def ref_env_def, simplified])
  ultimately show ?thesis by blast
qed

section \<open>Properties of the amount codec\<close>

subsection \<open>Digits\<close>

lemma digit_char_simps:
  "digit_char 0 = CHR ''0''" "digit_char 1 = CHR ''1''" "digit_char 2 = CHR ''2''"
  "digit_char 3 = CHR ''3''" "digit_char 4 = CHR ''4''" "digit_char 5 = CHR ''5''"
  "digit_char 6 = CHR ''6''" "digit_char 7 = CHR ''7''" "digit_char 8 = CHR ''8''"
  "digit_char 9 = CHR ''9''" "digit_char (Suc 0) = CHR ''1''"
  unfolding digit_char_def by code_simp+

lemma of_char_digit_char: "d < 10 \<Longrightarrow> (of_char (digit_char d) :: nat) = 48 + d"
  by (simp add: digit_char_def)

lemma is_digit_digit_char: "d < 10 \<Longrightarrow> is_digit (digit_char d)"
  by (simp add: is_digit_def of_char_digit_char)

lemma digit_val_digit_char: "d < 10 \<Longrightarrow> digit_val (digit_char d) = d"
  by (simp add: digit_val_def of_char_digit_char)

lemma zero_is_digit: "is_digit CHR ''0''" and point_no_digit: "\<not> is_digit CHR ''.''"
  and minus_no_digit: "\<not> is_digit CHR ''-''" and digit_val_zero: "digit_val CHR ''0'' = 0"
  by (simp_all add: is_digit_def digit_val_def)

lemma digits_value_snoc: "digits_value (s @ [c]) = 10 * digits_value s + digit_val c"
  by (simp add: digits_value_def)

lemma digits_value_dec: "digits_value (dec n) = n"
proof (induction n rule: dec.induct)
  case (1 n)
  show ?case
  proof (cases "n < 10")
    case True
    then have "dec n = [digit_char n]" by (subst dec.simps) simp
    with True show ?thesis by (simp add: digits_value_def digit_val_digit_char)
  next
    case False
    then have "dec n = dec (n div 10) @ [digit_char (n mod 10)]" by (subst dec.simps) simp
    with False "1.IH" show ?thesis
      by (simp add: digits_value_snoc digit_val_digit_char)
  qed
qed

lemma dec_digits: "list_all is_digit (dec n)"
proof (induction n rule: dec.induct)
  case (1 n)
  show ?case
  proof (cases "n < 10")
    case True
    then have "dec n = [digit_char n]" by (subst dec.simps) simp
    with True show ?thesis by (simp add: is_digit_digit_char)
  next
    case False
    then have "dec n = dec (n div 10) @ [digit_char (n mod 10)]" by (subst dec.simps) simp
    with False "1.IH" show ?thesis
      by (simp add: is_digit_digit_char)
  qed
qed

lemma dec_nonempty: "dec n \<noteq> []"
  by (subst dec.simps) simp

lemma digits_value_zeros: "digits_value (replicate k CHR ''0'' @ s) = digits_value s"
  by (induction k) (simp_all add: digits_value_def digit_val_zero)

lemma digits_value_append_zeros:
  "digits_value (s @ replicate k CHR ''0'') = digits_value s * 10 ^ k"
proof (induction k)
  case 0
  then show ?case by simp
next
  case (Suc k)
  have "digits_value (s @ replicate (Suc k) CHR ''0'')
      = digits_value ((s @ replicate k CHR ''0'') @ [CHR ''0''])"
    by (simp add: replicate_append_same)
  also have "\<dots> = 10 * digits_value (s @ replicate k CHR ''0'') + digit_val CHR ''0''"
    by (rule digits_value_snoc)
  finally show ?case using Suc by (simp add: digit_val_zero)
qed

lemma digits_value_append:
  "digits_value (a @ b) = digits_value a * 10 ^ length b + digits_value b"
proof (induction b rule: rev_induct)
  case Nil
  then show ?case by (simp add: digits_value_def)
next
  case (snoc c b)
  have "digits_value (a @ b @ [c]) = 10 * digits_value (a @ b) + digit_val c"
    using digits_value_snoc [of "a @ b" c] by simp
  with snoc show ?case by (simp add: digits_value_snoc algebra_simps)
qed

lemma digit_val_bound: "is_digit c \<Longrightarrow> digit_val c < 10"
  by (auto simp: is_digit_def digit_val_def)

lemma digits_value_bound: "list_all is_digit b \<Longrightarrow> digits_value b < 10 ^ length b"
proof (induction b rule: rev_induct)
  case Nil
  then show ?case by (simp add: digits_value_def)
next
  case (snoc c b)
  then have "digits_value b < 10 ^ length b" and "digit_val c < 10"
    by (simp_all add: digit_val_bound)
  then have "10 * digits_value b + digit_val c < 10 * 10 ^ length b" by simp
  then show ?case by (simp add: digits_value_snoc)
qed

lemma digit_char_digit_val: "is_digit c \<Longrightarrow> digit_char (digit_val c) = c"
  by (simp add: is_digit_def digit_val_def digit_char_def)

lemma digit_val_pos: "is_digit c \<Longrightarrow> c \<noteq> CHR ''0'' \<Longrightarrow> 0 < digit_val c"
proof -
  assume d: "is_digit c" and n: "c \<noteq> CHR ''0''"
  have "digit_val c \<noteq> 0"
  proof
    assume "digit_val c = 0"
    with digit_char_digit_val [OF d] have "c = digit_char 0" by simp
    with n show False by (simp add: digit_char_simps)
  qed
  then show ?thesis by simp
qed

lemma digits_value_pos:
  "list_all is_digit w \<Longrightarrow> w \<noteq> [] \<Longrightarrow> hd w \<noteq> CHR ''0'' \<Longrightarrow> 0 < digits_value w"
proof (induction w rule: rev_induct)
  case Nil
  then show ?case by simp
next
  case (snoc c w)
  show ?case
  proof (cases "w = []")
    case True
    with snoc.prems show ?thesis
      by (simp add: digits_value_def digit_val_pos)
  next
    case False
    with snoc have "0 < digits_value w" by simp
    then show ?thesis by (simp add: digits_value_snoc)
  qed
qed

lemma dec_digits_value:
  "list_all is_digit w \<Longrightarrow> w \<noteq> [] \<Longrightarrow> length w = 1 \<or> hd w \<noteq> CHR ''0'' \<Longrightarrow>
   dec (digits_value w) = w"
proof (induction w rule: rev_induct)
  case Nil
  then show ?case by simp
next
  case (snoc c w)
  from snoc.prems have c: "is_digit c" and w: "list_all is_digit w" by simp_all
  show ?case
  proof (cases "w = []")
    case True
    then have "digits_value (w @ [c]) = digit_val c" by (simp add: digits_value_def)
    moreover have "dec (digit_val c) = [digit_char (digit_val c)]"
      using digit_val_bound [OF c] by (subst dec.simps) simp
    ultimately show ?thesis using True c by (simp add: digit_char_digit_val)
  next
    case False
    with snoc.prems have hd: "hd w \<noteq> CHR ''0''" by (cases w) auto
    from digits_value_pos [OF w False hd] have pos: "0 < digits_value w" .
    have v: "digits_value (w @ [c]) = 10 * digits_value w + digit_val c"
      by (rule digits_value_snoc)
    from pos have big: "\<not> 10 * digits_value w + digit_val c < 10" by simp
    have "(10 * digits_value w + digit_val c) div 10 = digits_value w"
      using digit_val_bound [OF c] by simp
    moreover have "(10 * digits_value w + digit_val c) mod 10 = digit_val c"
      using digit_val_bound [OF c] by simp
    ultimately have "dec (10 * digits_value w + digit_val c)
        = dec (digits_value w) @ [digit_char (digit_val c)]"
      using big by (subst dec.simps) simp
    moreover from snoc.IH [OF w False] hd have "dec (digits_value w) = w" by simp
    ultimately show ?thesis using v c by (simp add: digit_char_digit_val)
  qed
qed

lemma digits_no_point: "list_all is_digit w \<Longrightarrow> CHR ''.'' \<notin> set w"
  using point_no_digit by (auto simp: list_all_iff)

lemma zeros_digits: "list_all is_digit (replicate k CHR ''0'')"
  by (simp add: list_all_iff zero_is_digit)

lemma four_zeros: "''0000'' = replicate 4 CHR ''0''"
  by (simp add: numeral_eq_Suc)

subsection \<open>The padding and trimming loops\<close>

lemma pad_whole_shape:
  "\<exists>k. pad_whole s p = replicate k CHR ''0'' @ s \<and> p < length (pad_whole s p)"
proof (induction s p rule: pad_whole.induct)
  case (1 str decimals)
  show ?case
  proof (cases "length str \<le> decimals")
    case True
    then have unfold: "pad_whole str decimals = pad_whole (''0000'' @ str) decimals"
      by (subst pad_whole.simps) simp
    from "1.IH" [OF True] obtain k where
      k: "pad_whole (''0000'' @ str) decimals = replicate k CHR ''0'' @ ''0000'' @ str"
      and len: "decimals < length (pad_whole (''0000'' @ str) decimals)"
      by blast
    have "replicate k CHR ''0'' @ ''0000'' @ str = replicate (k + 4) CHR ''0'' @ str"
      unfolding four_zeros by (simp add: replicate_add)
    with k len unfold show ?thesis by metis
  next
    case False
    then have "pad_whole str decimals = str" by (subst pad_whole.simps) simp
    with False show ?thesis by (intro exI [of _ 0]) simp
  qed
qed

lemma pad_decimal_shape:
  "\<exists>k. pad_decimal d p = d @ replicate k CHR ''0'' \<and> p \<le> length (pad_decimal d p)"
proof (induction d p rule: pad_decimal.induct)
  case (1 decimal decimals)
  show ?case
  proof (cases "length decimal < decimals")
    case True
    then have unfold: "pad_decimal decimal decimals = pad_decimal (decimal @ ''0000'') decimals"
      by (subst pad_decimal.simps) simp
    from "1.IH" [OF True] obtain k where
      k: "pad_decimal (decimal @ ''0000'') decimals = (decimal @ ''0000'') @ replicate k CHR ''0''"
      and len: "decimals \<le> length (pad_decimal (decimal @ ''0000'') decimals)"
      by blast
    have "(decimal @ ''0000'') @ replicate k CHR ''0'' = decimal @ replicate (4 + k) CHR ''0''"
      unfolding four_zeros by (simp add: replicate_add)
    with k len unfold show ?thesis by metis
  next
    case False
    then have "pad_decimal decimal decimals = decimal" by (subst pad_decimal.simps) simp
    with False show ?thesis by (intro exI [of _ 0]) simp
  qed
qed

lemma trim_zeros_canonical:
  "w \<noteq> [] \<Longrightarrow> CHR ''.'' \<notin> set w \<Longrightarrow>
   \<exists>k w'. w = replicate k CHR ''0'' @ w' \<and> w' \<noteq> [] \<and>
          (length w' = 1 \<or> hd w' \<noteq> CHR ''0'') \<and>
          trim_zeros (w @ CHR ''.'' # f) = w' @ CHR ''.'' # f"
proof (induction w)
  case Nil
  then show ?case by simp
next
  case (Cons c w)
  show ?case
  proof (cases w)
    case Nil
    then have "trim_zeros ((c # w) @ CHR ''.'' # f) = (c # w) @ CHR ''.'' # f" by simp
    with Nil show ?thesis
      by (intro exI [of _ 0] exI [of _ "c # w"]) simp
  next
    case (Cons c' w'')
    with Cons.prems have c': "c' \<noteq> CHR ''.''" by auto
    show ?thesis
    proof (cases "c = CHR ''0''")
      case True
      have "w \<noteq> []" using Cons by simp
      moreover have "CHR ''.'' \<notin> set w" using Cons.prems by simp
      ultimately obtain k w' where
        w: "w = replicate k CHR ''0'' @ w'" and ne: "w' \<noteq> []" and
        canon: "length w' = 1 \<or> hd w' \<noteq> CHR ''0''" and
        tr: "trim_zeros (w @ CHR ''.'' # f) = w' @ CHR ''.'' # f"
        using Cons.IH by blast
      from True c' Cons have "trim_zeros ((c # w) @ CHR ''.'' # f) = trim_zeros (w @ CHR ''.'' # f)"
        by simp
      with tr have "trim_zeros ((c # w) @ CHR ''.'' # f) = w' @ CHR ''.'' # f" by simp
      moreover from True w have "c # w = replicate (Suc k) CHR ''0'' @ w'" by simp
      ultimately show ?thesis using ne canon by blast
    next
      case False
      with Cons have "trim_zeros ((c # w) @ CHR ''.'' # f) = (c # w) @ CHR ''.'' # f" by simp
      with False show ?thesis
        by (intro exI [of _ 0] exI [of _ "c # w"]) simp
    qed
  qed
qed

subsection \<open>What \<open>formatUnits\<close> prints\<close>

lemma fixed_toString_exact:
  assumes x: "0 \<le> x" and p: "0 < p"
  shows "\<exists>f. fixed_toString x p = dec (nat x div 10 ^ p) @ CHR ''.'' # f \<and> f \<noteq> [] \<and>
           list_all is_digit f \<and> length f \<le> p \<and>
           digits_value f * 10 ^ (p - length f) = nat x mod 10 ^ p \<and>
           (length f = 1 \<or> last f \<noteq> CHR ''0'')"
proof -
  obtain k0 where pad: "pad_whole (dec (nat x)) p = replicate k0 CHR ''0'' @ dec (nat x)"
    and long: "p < length (pad_whole (dec (nat x)) p)"
    using pad_whole_shape by blast
  define padded where "padded = pad_whole (dec (nat x)) p"
  define idx where "idx = length padded - p"
  define wpart where "wpart = take idx padded"
  define fpart where "fpart = drop idx padded"
  have digits: "list_all is_digit padded"
    unfolding padded_def pad by (simp add: zeros_digits dec_digits)
  have val: "digits_value padded = nat x"
    unfolding padded_def pad by (simp add: digits_value_zeros digits_value_dec)
  from long have idx: "0 < idx" "idx < length padded"
    using p by (simp_all add: idx_def padded_def)
  have split: "padded = wpart @ fpart" by (simp add: wpart_def fpart_def)
  have wne: "wpart \<noteq> []" using idx by (auto simp: wpart_def)
  have flen: "length fpart = p" using long by (simp add: fpart_def idx_def padded_def)
  with p have fne: "fpart \<noteq> []" by auto
  from digits split have wd: "list_all is_digit wpart" and fd: "list_all is_digit fpart"
    by simp_all
  from trim_zeros_canonical [OF wne digits_no_point [OF wd], of fpart]
  obtain k1 w where w: "wpart = replicate k1 CHR ''0'' @ w" and wne': "w \<noteq> []"
    and wcanon: "length w = 1 \<or> hd w \<noteq> CHR ''0''"
    and tr1: "trim_zeros (wpart @ CHR ''.'' # fpart) = w @ CHR ''.'' # fpart"
    by blast
  have rfne: "rev fpart \<noteq> []" using fne by simp
  have rfp: "CHR ''.'' \<notin> set (rev fpart)" using digits_no_point [OF fd] by simp
  from trim_zeros_canonical [OF rfne rfp, of "rev w"]
  obtain k g where g: "rev fpart = replicate k CHR ''0'' @ g" and gne: "g \<noteq> []"
    and gcanon: "length g = 1 \<or> hd g \<noteq> CHR ''0''"
    and tr2: "trim_zeros (rev fpart @ CHR ''.'' # rev w) = g @ CHR ''.'' # rev w"
    by blast
  from g have f: "fpart = rev g @ replicate k CHR ''0''"
    by (metis rev_append rev_replicate rev_rev_ident)
  have out: "fixed_toString x p = w @ CHR ''.'' # rev g"
    using x p tr1 tr2
    by (simp add: fixed_toString_def Let_def padded_def [symmetric] idx_def [symmetric]
        wpart_def [symmetric] fpart_def [symmetric])
  from wd w have wd': "list_all is_digit w" by simp
  from fd f have gd: "list_all is_digit (rev g)" by simp
  from flen f have len: "length (rev g) + k = p" by simp
  have "digits_value padded = digits_value wpart * 10 ^ p + digits_value fpart"
    unfolding split using digits_value_append [of wpart fpart] flen by simp
  with val have sum: "nat x = digits_value wpart * 10 ^ p + digits_value fpart" by simp
  from digits_value_bound [OF fd] flen have small: "digits_value fpart < 10 ^ p" by simp
  from sum small have quot: "nat x div 10 ^ p = digits_value wpart"
    and rem: "nat x mod 10 ^ p = digits_value fpart"
    by simp_all
  have "digits_value wpart = digits_value w"
    unfolding w by (rule digits_value_zeros)
  with quot dec_digits_value [OF wd' wne' wcanon] have whole: "dec (nat x div 10 ^ p) = w"
    by simp
  from len have k: "k = p - length (rev g)" by simp
  have "digits_value fpart = digits_value (rev g) * 10 ^ k"
    unfolding f by (rule digits_value_append_zeros)
  with rem k have frac: "digits_value (rev g) * 10 ^ (p - length (rev g)) = nat x mod 10 ^ p"
    by simp
  from gne have "last (rev g) = hd g" by (simp add: last_rev)
  with gcanon have trimmed: "length (rev g) = 1 \<or> last (rev g) \<noteq> CHR ''0''" by simp
  from len have le: "length (rev g) \<le> p" by simp
  from out whole gne gd le frac trimmed show ?thesis
    by (intro exI [of _ "rev g"]) simp
qed

lemma fixed_toString_shape:
  assumes x: "0 \<le> x" and p: "0 < p"
  shows "\<exists>w f k. fixed_toString x p = w @ CHR ''.'' # f \<and> w \<noteq> [] \<and> f \<noteq> [] \<and>
           list_all is_digit w \<and> list_all is_digit f \<and> length f + k = p \<and>
           digits_value (w @ f @ replicate k CHR ''0'') = nat x"
proof -
  from fixed_toString_exact [OF x p] obtain f where
    out: "fixed_toString x p = dec (nat x div 10 ^ p) @ CHR ''.'' # f" and fne: "f \<noteq> []"
    and fd: "list_all is_digit f" and le: "length f \<le> p"
    and frac: "digits_value f * 10 ^ (p - length f) = nat x mod 10 ^ p"
    by blast
  define w where "w = dec (nat x div 10 ^ p)"
  define k where "k = p - length f"
  from le have len: "length f + k = p" by (simp add: k_def)
  have "digits_value (w @ f @ replicate k CHR ''0'')
      = digits_value w * 10 ^ length (f @ replicate k CHR ''0'')
          + digits_value (f @ replicate k CHR ''0'')"
    by (rule digits_value_append)
  also have "\<dots> = nat x div 10 ^ p * 10 ^ p + digits_value f * 10 ^ k"
    using len by (simp add: w_def digits_value_dec digits_value_append_zeros)
  also have "\<dots> = nat x" unfolding k_def frac by (rule div_mult_mod_eq)
  finally have val: "digits_value (w @ f @ replicate k CHR ''0'') = nat x" .
  from out fne fd len val show ?thesis
    unfolding w_def [symmetric]
    by (intro exI [of _ w] exI [of _ f] exI [of _ k]) (simp add: w_def dec_nonempty dec_digits)
qed

lemma fixed_toString_integer: "0 \<le> x \<Longrightarrow> fixed_toString x 0 = dec (nat x)"
  by (simp add: fixed_toString_def)

subsection \<open>What \<open>parseUnits\<close> reads\<close>

lemma takeWhile_digits: "list_all is_digit w \<Longrightarrow> \<not> is_digit c \<Longrightarrow>
    takeWhile is_digit (w @ c # r) = w \<and> dropWhile is_digit (w @ c # r) = c # r"
  by (induction w) simp_all

lemma takeWhile_all_digits: "list_all is_digit w \<Longrightarrow>
    takeWhile is_digit w = w \<and> dropWhile is_digit w = []"
  by (induction w) simp_all

lemma digits_hd_no_minus: "list_all is_digit w \<Longrightarrow> w \<noteq> [] \<Longrightarrow> hd w \<noteq> CHR ''-''"
  using minus_no_digit by (cases w) auto

lemma match_decimal_fraction:
  assumes "w \<noteq> []" "list_all is_digit w" "list_all is_digit f"
  shows "match_decimal (w @ CHR ''.'' # f) = Some (False, w, f)"
proof -
  from assms have sign: "hd (w @ CHR ''.'' # f) \<noteq> CHR ''-''"
    using digits_hd_no_minus [of w] by simp
  note a = takeWhile_digits [OF assms(2) point_no_digit, of f]
  note b = takeWhile_all_digits [OF assms(3)]
  show ?thesis
    unfolding match_decimal_def Let_def using sign a b by simp
qed

lemma match_decimal_integer:
  assumes "w \<noteq> []" "list_all is_digit w"
  shows "match_decimal w = Some (False, w, [])"
proof -
  from assms have sign: "hd w \<noteq> CHR ''-''"
    using digits_hd_no_minus [of w] by simp
  have t: "takeWhile is_digit w = w"
    using takeWhile_all_digits [OF assms(2)] by (rule conjunct1)
  have d: "dropWhile is_digit w = []"
    using takeWhile_all_digits [OF assms(2)] by (rule conjunct2)
  have neg: "\<not> (w \<noteq> [] \<and> hd w = CHR ''-'')" using sign by blast
  have goal: "w = [] \<or> hd w \<noteq> CHR ''-''" using sign by blast
  show ?thesis
    unfolding match_decimal_def Let_def if_not_P [OF neg] d
    by (simp add: t) (rule goal)
qed

lemma parseUnits_fraction:
  assumes w: "w \<noteq> []" "list_all is_digit w" and f: "list_all is_digit f"
    and len: "length f + k = p" and p80: "p \<le> 80"
    and range: "int (digits_value (w @ f @ replicate k CHR ''0'')) < 2 ^ 511"
  shows "ethers_parseUnits (w @ CHR ''.'' # f) p
           = Inr (int (digits_value (w @ f @ replicate k CHR ''0'')))"
proof -
  obtain j where pad: "pad_decimal f p = f @ replicate j CHR ''0''"
    and long: "p \<le> length (pad_decimal f p)"
    using pad_decimal_shape by blast
  from len long pad have kj: "k \<le> j" by simp
  from len have p: "p = length f + k" by simp
  have tk: "take p (f @ replicate j CHR ''0'') = f @ replicate k CHR ''0''"
    unfolding p using kj by (simp add: min_absorb2)
  have "drop p (f @ replicate j CHR ''0'') = replicate (j - k) CHR ''0''"
    unfolding p by simp
  then have zeros: "list_all (\<lambda>c. c = CHR ''0'') (drop p (f @ replicate j CHR ''0''))"
    by (simp add: list_all_iff)
  have "in_range (int (digits_value (w @ f @ replicate k CHR ''0'')))"
    using range by (simp add: in_range_def)
  with w f zeros tk p80 show ?thesis
    by (simp add: ethers_parseUnits_def match_decimal_fraction pad Let_def)
qed

lemma parseUnits_integer:
  assumes w: "w \<noteq> []" "list_all is_digit w"
    and range: "int (digits_value w) < 2 ^ 511"
  shows "ethers_parseUnits w 0 = Inr (int (digits_value w))"
proof -
  have "pad_decimal [] 0 = []" by (subst pad_decimal.simps) simp
  moreover have "in_range (int (digits_value w))" using range by (simp add: in_range_def)
  ultimately show ?thesis using w
    by (simp add: ethers_parseUnits_def match_decimal_integer Let_def)
qed

subsection \<open>Round trip and fraction digits\<close>

lemma fraction_digits_point:
  "list_all is_digit w \<Longrightarrow> fraction_digits (w @ CHR ''.'' # f) = length f"
proof -
  assume "list_all is_digit w"
  then have "\<forall>c \<in> set w. c \<noteq> CHR ''.''"
    using digits_no_point [of w] by blast
  then have e: "dropWhile (\<lambda>c. c \<noteq> CHR ''.'') (w @ CHR ''.'' # f) = CHR ''.'' # f"
    by (induction w) simp_all
  show ?thesis unfolding fraction_digits_def e by simp
qed

lemma fraction_digits_none: "list_all is_digit w \<Longrightarrow> fraction_digits w = 0"
proof -
  assume "list_all is_digit w"
  then have "\<forall>c \<in> set w. c \<noteq> CHR ''.''"
    using digits_no_point [of w] by blast
  then have e: "dropWhile (\<lambda>c. c \<noteq> CHR ''.'') w = []"
    by (induction w) simp_all
  show ?thesis unfolding fraction_digits_def e by simp
qed

lemma parseUSDCAmount_in_range:
  "0 \<le> x \<Longrightarrow> x < 2 ^ 511 \<Longrightarrow> p \<le> 80 \<Longrightarrow>
   parseUSDCAmount ethers_v6 x p = fixed_toString x p"
  by (simp add: parseUSDCAmount_def ethers_v6_def ethers_formatUnits_def in_range_def)

lemma round_trip_value:
  assumes x: "0 \<le> x" "x < 2 ^ 511" and p80: "p \<le> 80"
  shows "ethers_parseUnits (parseUSDCAmount ethers_v6 x p) p = Inr x"
proof (cases "p = 0")
  case True
  from x have "int (digits_value (dec (nat x))) < 2 ^ 511"
    by (simp add: digits_value_dec)
  from parseUnits_integer [OF dec_nonempty dec_digits this] x True show ?thesis
    by (simp add: parseUSDCAmount_in_range fixed_toString_integer digits_value_dec)
next
  case False
  then have p: "0 < p" by simp
  from fixed_toString_shape [OF x(1) p] obtain w f k where
    out: "fixed_toString x p = w @ CHR ''.'' # f" and w: "w \<noteq> []" "list_all is_digit w"
    and f: "list_all is_digit f" and len: "length f + k = p"
    and val: "digits_value (w @ f @ replicate k CHR ''0'') = nat x"
    by blast
  from val x have "int (digits_value (w @ f @ replicate k CHR ''0'')) < 2 ^ 511" by simp
  from parseUnits_fraction [OF w f len p80 this] val x out p80 show ?thesis
    by (simp add: parseUSDCAmount_in_range)
qed

lemmas codec_defs =
  formatUSDCAmount_def parseUSDCAmount_def ethers_v6_def ethers_parseUnits_def
  ethers_formatUnits_def match_decimal_def is_digit_def digit_val_def digits_value_def
  in_range_def fixed_toString_def bigint_toString_def digit_char_simps fraction_digits_def
  dec.simps pad_whole.simps pad_decimal.simps Let_def

lemma fraction_part_point:
  assumes "list_all is_digit w"
  shows "fraction_part (w @ CHR ''.'' # f) = f"
proof -
  from assms have no: "\<forall>c \<in> set w. c \<noteq> CHR ''.''"
    using digits_no_point [of w] by blast
  then have "dropWhile (\<lambda>c. c \<noteq> CHR ''.'') (w @ CHR ''.'' # f) = CHR ''.'' # f"
    by (induction w) simp_all
  then show "fraction_part (w @ CHR ''.'' # f) = f" by (simp add: fraction_part_def)
qed

lemma fraction_digits_part: "fraction_digits s = length (fraction_part s)"
  by (simp add: fraction_digits_def fraction_part_def)

lemma parseUSDCAmount_beyond:
  "80 < p \<or> x < - (2 ^ 511) \<or> 2 ^ 511 \<le> x \<Longrightarrow> parseUSDCAmount ethers_v6 x p = ''0''"
  by (auto simp: parseUSDCAmount_def ethers_v6_def ethers_formatUnits_def in_range_def)

text \<open>
  Claim C9, as the code has it. \<open>parseUSDCAmount\<close> hands the integer to
  \<open>formatUnits\<close>, which in ethers version 6 works within a signed 512-bit range and
  with at most 80 decimals. For every integer \<open>x\<close> from 0 up to that range and every
  precision \<open>p\<close> up to 80 it prints \<open>x\<close> with the point \<open>p\<close> places from the right and
  the trailing zeros of the fraction removed, keeping one digit. For \<open>p = 0\<close> the result
  is the plain integer, without a point. For \<open>p > 0\<close> it is the integer part
  \<open>x div 10^p\<close>, a point and between one and \<open>p\<close> fraction digits; these digits, filled
  up with zeros to \<open>p\<close> digits, are \<open>x mod 10^p\<close>, and the last of them is not a zero
  unless it is the only one. Within these limits the round trip holds:
  \<open>formatUSDCAmount\<close> reads the printed string back as the same integer and returns its
  decimal form. Beyond the limits \<open>formatUnits\<close> throws and \<open>parseUSDCAmount\<close> returns
  \<open>0\<close>.
\<close>

theorem codec_round_trip:
  "(0 \<le> x \<and> x < 2 ^ 511 \<and> p \<le> 80 \<longrightarrow>
      formatUSDCAmount ethers_v6 (parseUSDCAmount ethers_v6 x p) p = bigint_toString x \<and>
      (p = 0 \<longrightarrow> parseUSDCAmount ethers_v6 x p = bigint_toString x \<and>
                 fraction_digits (parseUSDCAmount ethers_v6 x p) = 0) \<and>
      (0 < p \<longrightarrow>
         parseUSDCAmount ethers_v6 x p
           = bigint_toString (x div 10 ^ p) @ ''.''
               @ fraction_part (parseUSDCAmount ethers_v6 x p) \<and>
         list_all is_digit (fraction_part (parseUSDCAmount ethers_v6 x p)) \<and>
         1 \<le> fraction_digits (parseUSDCAmount ethers_v6 x p) \<and>
         fraction_digits (parseUSDCAmount ethers_v6 x p) \<le> p \<and>
         int (digits_value (fraction_part (parseUSDCAmount ethers_v6 x p)))
             * 10 ^ (p - fraction_digits (parseUSDCAmount ethers_v6 x p)) = x mod 10 ^ p \<and>
         (fraction_digits (parseUSDCAmount ethers_v6 x p) = 1
            \<or> last (fraction_part (parseUSDCAmount ethers_v6 x p)) \<noteq> CHR ''0''))) \<and>
   (80 < p \<or> x < - (2 ^ 511) \<or> 2 ^ 511 \<le> x \<longrightarrow> parseUSDCAmount ethers_v6 x p = ''0'')"
proof (intro conjI impI)
  assume "80 < p \<or> x < - (2 ^ 511) \<or> 2 ^ 511 \<le> x"
  then show "parseUSDCAmount ethers_v6 x p = ''0''" by (rule parseUSDCAmount_beyond)
next
  assume a: "0 \<le> x \<and> x < 2 ^ 511 \<and> p \<le> 80"
  then have x: "0 \<le> x" "x < 2 ^ 511" and p80: "p \<le> 80" by simp_all
  from round_trip_value [OF x p80]
  show "formatUSDCAmount ethers_v6 (parseUSDCAmount ethers_v6 x p) p = bigint_toString x"
    by (simp add: formatUSDCAmount_def ethers_v6_def)
  {
    assume "p = 0"
    with x p80 show "parseUSDCAmount ethers_v6 x p = bigint_toString x"
      by (simp add: parseUSDCAmount_in_range fixed_toString_integer bigint_toString_def)
    from \<open>p = 0\<close> x p80 show "fraction_digits (parseUSDCAmount ethers_v6 x p) = 0"
      by (simp add: parseUSDCAmount_in_range fixed_toString_integer fraction_digits_none
          dec_digits)
  }
  assume p: "0 < p"
  define out where "out = parseUSDCAmount ethers_v6 x p"
  from fixed_toString_exact [OF x(1) p] obtain f where
    shape: "fixed_toString x p = dec (nat x div 10 ^ p) @ CHR ''.'' # f" and fne: "f \<noteq> []"
    and fd: "list_all is_digit f" and le: "length f \<le> p"
    and frac: "digits_value f * 10 ^ (p - length f) = nat x mod 10 ^ p"
    and trimmed: "length f = 1 \<or> last f \<noteq> CHR ''0''"
    by blast
  from x p80 shape have out: "out = dec (nat x div 10 ^ p) @ CHR ''.'' # f"
    by (simp add: out_def parseUSDCAmount_in_range)
  have fp: "fraction_part out = f"
    unfolding out by (rule fraction_part_point [OF dec_digits])
  have n: "fraction_digits out = length f"
    by (simp add: fraction_digits_part fp)
  have nonneg: "\<not> x div 10 ^ p < 0"
    using x by (simp add: not_less pos_imp_zdiv_nonneg_iff)
  have "nat (x div 10 ^ p) = nat x div nat (10 ^ p)"
    using x by (simp add: nat_div_distrib)
  also have "nat ((10 :: int) ^ p) = 10 ^ p" by (simp add: nat_power_eq)
  finally have "nat (x div 10 ^ p) = nat x div 10 ^ p" .
  with nonneg have quot: "bigint_toString (x div 10 ^ p) = dec (nat x div 10 ^ p)"
    by (simp add: bigint_toString_def)
  from out quot fp show "out = bigint_toString (x div 10 ^ p) @ ''.'' @ fraction_part out"
    by simp
  from fd fp show "list_all is_digit (fraction_part out)" by simp
  from fne show "1 \<le> fraction_digits out" unfolding n by (cases f) simp_all
  from le show "fraction_digits out \<le> p" unfolding n .
  have "int (digits_value f) * 10 ^ (p - length f) = int (digits_value f * 10 ^ (p - length f))"
    by simp
  also have "\<dots> = int (nat x mod 10 ^ p)" by (simp only: frac)
  also have "\<dots> = x mod 10 ^ p" using x by (simp add: zmod_int)
  finally show "int (digits_value (fraction_part out)) * 10 ^ (p - fraction_digits out)
      = x mod 10 ^ p"
    unfolding fp n .
  from trimmed show "fraction_digits out = 1 \<or> last (fraction_part out) \<noteq> CHR ''0''"
    unfolding fp n .
qed

theorem codec_round_trip_witness:
  "parseUSDCAmount ethers_v6 1234500 6 = ''1.2345'' \<and>
   formatUSDCAmount ethers_v6 (parseUSDCAmount ethers_v6 1234500 6) 6 = ''1234500'' \<and>
   fraction_part (parseUSDCAmount ethers_v6 1234500 6) = ''2345'' \<and>
   int (digits_value (fraction_part (parseUSDCAmount ethers_v6 1234500 6)))
       * 10 ^ (6 - fraction_digits (parseUSDCAmount ethers_v6 1234500 6)) = 1234500 mod 10 ^ 6 \<and>
   last (fraction_part (parseUSDCAmount ethers_v6 1234500 6)) \<noteq> CHR ''0'' \<and>
   parseUSDCAmount ethers_v6 42 0 = ''42'' \<and>
   parseUSDCAmount ethers_v6 5 81 = ''0''"
proof -
  have out: "parseUSDCAmount ethers_v6 1234500 6 = ''1.2345''"
    by (simp add: codec_defs)
  have fp: "fraction_part ''1.2345'' = ''2345''" and fd: "fraction_digits ''1.2345'' = 4"
    by (simp_all add: fraction_part_def fraction_digits_def)
  from codec_round_trip [of 1234500 6] codec_round_trip [of 42 0] codec_round_trip [of 5 81]
    out fp fd
  show ?thesis by (simp add: bigint_toString_def dec.simps digit_char_simps)
qed

text \<open>
  The claim as stated fails: one unit of a token with six decimals is printed as
  \<open>1.0\<close>, with one fraction digit, not six. And the round trip does not hold for every
  precision: at precision 81 the library throws in both directions, so 5 is printed as
  \<open>0\<close> and read back as \<open>0\<close>.
\<close>

theorem codec_round_trip_counterexample:
  "parseUSDCAmount ethers_v6 1000000 6 = ''1.0'' \<and>
   fraction_digits (parseUSDCAmount ethers_v6 1000000 6) = 1 \<and>
   formatUSDCAmount ethers_v6 (parseUSDCAmount ethers_v6 5 81) 81 = ''0'' \<and>
   bigint_toString 5 = ''5''"
  by (simp add: codec_defs)

lemma match_decimal_negative:
  assumes "list_all is_digit w"
  shows "match_decimal (CHR ''-'' # w) = Some (True, w, [])"
proof -
  from takeWhile_all_digits [OF assms]
  have t: "takeWhile is_digit w = w" and d: "dropWhile is_digit w = []"
    by blast+
  show ?thesis
    unfolding match_decimal_def Let_def by (simp add: t d)
qed

lemma parseUnits_negative:
  assumes w: "w \<noteq> []" "list_all is_digit w" and p80: "p \<le> 80"
    and range: "int (digits_value w * 10 ^ p) \<le> 2 ^ 511"
  shows "ethers_parseUnits (CHR ''-'' # w) p = Inr (- int (digits_value w * 10 ^ p))"
proof -
  obtain j where pad: "pad_decimal [] p = [] @ replicate j CHR ''0''"
    and long: "p \<le> length (pad_decimal [] p)"
    using pad_decimal_shape by blast
  from pad long have pj: "p \<le> j" by simp
  then have tk: "take p (replicate j CHR ''0'') = replicate p CHR ''0''"
    by (simp add: min_absorb2)
  have zeros: "list_all (\<lambda>c. c = CHR ''0'') (drop p (replicate j CHR ''0''))"
    by (simp add: list_all_iff)
  have "- int (digits_value w * 10 ^ p) \<le> 0" by simp
  moreover have "(0 :: int) < 2 ^ 511" by simp
  ultimately have "- int (digits_value w * 10 ^ p) < 2 ^ 511" by (rule le_less_trans)
  moreover from range have "- (2 ^ 511) \<le> - int (digits_value w * 10 ^ p)"
    by (simp only: neg_le_iff_le)
  ultimately have "in_range (- int (digits_value w * 10 ^ p))"
    unfolding in_range_def by blast
  with w zeros tk pad p80 show ?thesis
    by (simp add: ethers_parseUnits_def match_decimal_negative Let_def
        digits_value_append_zeros)
qed

lemma parseUnits_surplus:
  assumes m: "match_decimal s = Some (negative, w, f)"
    and surplus: "\<not> list_all (\<lambda>c. c = CHR ''0'') (drop p f)"
  shows "\<exists>e. ethers_parseUnits s p = Inl e"
proof -
  from surplus have "drop p f \<noteq> []" by auto
  then have long: "\<not> length f < p" by auto
  then have pad: "pad_decimal f p = f" by (subst pad_decimal.simps) simp
  from surplus have "f \<noteq> []" by auto
  with m surplus pad show ?thesis
    by (simp add: ethers_parseUnits_def Let_def)
qed

text \<open>
  Claim C8, as the code has it. \<open>formatUSDCAmount\<close> never fails. Whenever
  \<open>parseUnits\<close> throws, the \<open>catch\<close> block logs the error and returns the string
  \<open>0\<close>. With ethers version 6 that is the answer to every input that is not an
  optionally signed decimal numeral and to every numeral with a non-zero digit beyond the
  precision. A negative numeral is not rejected: a minus sign followed by digits is
  converted to the negative amount, as far as the library's 512-bit range and its limit
  of 80 decimals reach.
\<close>

theorem malformed_amount_gives_zero:
  "(parseUnits L amount' decimals = Inl e \<longrightarrow> formatUSDCAmount L amount' decimals = ''0'') \<and>
   (match_decimal amount' = None \<longrightarrow> formatUSDCAmount ethers_v6 amount' decimals = ''0'') \<and>
   (match_decimal amount' = Some (negative, m2, m3) \<and>
      \<not> list_all (\<lambda>c. c = CHR ''0'') (drop decimals m3) \<longrightarrow>
      formatUSDCAmount ethers_v6 amount' decimals = ''0'') \<and>
   (w \<noteq> [] \<and> list_all is_digit w \<and> decimals \<le> 80 \<and>
    int (digits_value w * 10 ^ decimals) \<le> 2 ^ 511 \<longrightarrow>
      formatUSDCAmount ethers_v6 (CHR ''-'' # w) decimals
        = bigint_toString (- int (digits_value w * 10 ^ decimals)))"
proof (intro conjI impI)
  assume "parseUnits L amount' decimals = Inl e"
  then show "formatUSDCAmount L amount' decimals = ''0''"
    by (simp add: formatUSDCAmount_def)
next
  assume "match_decimal amount' = None"
  then show "formatUSDCAmount ethers_v6 amount' decimals = ''0''"
    by (simp add: formatUSDCAmount_def ethers_v6_def ethers_parseUnits_def)
next
  assume "match_decimal amount' = Some (negative, m2, m3) \<and>
      \<not> list_all (\<lambda>c. c = CHR ''0'') (drop decimals m3)"
  then obtain e' where "ethers_parseUnits amount' decimals = Inl e'"
    using parseUnits_surplus by blast
  then show "formatUSDCAmount ethers_v6 amount' decimals = ''0''"
    by (simp add: formatUSDCAmount_def ethers_v6_def)
next
  assume "w \<noteq> [] \<and> list_all is_digit w \<and> decimals \<le> 80 \<and>
    int (digits_value w * 10 ^ decimals) \<le> 2 ^ 511"
  then have "ethers_parseUnits (CHR ''-'' # w) decimals
      = Inr (- int (digits_value w * 10 ^ decimals))"
    using parseUnits_negative by blast
  then show "formatUSDCAmount ethers_v6 (CHR ''-'' # w) decimals
        = bigint_toString (- int (digits_value w * 10 ^ decimals))"
    by (simp add: formatUSDCAmount_def ethers_v6_def)
qed

text \<open>
  The witness: a comma instead of the point is no numeral; seven fraction digits at
  precision six are one too many; and \<open>-15\<close> at precision six is converted.
\<close>

theorem malformed_amount_gives_zero_witness:
  "formatUSDCAmount ethers_v6 ''1,5'' 6 = ''0'' \<and>
   formatUSDCAmount ethers_v6 ''1.1234567'' 6 = ''0'' \<and>
   formatUSDCAmount ethers_v6 ''-15'' 6 = ''-15000000''"
proof -
  have a: "parseUnits ethers_v6 ''1,5'' 6 = Inl INVALID_ARGUMENT"
    and b: "match_decimal ''1,5'' = None"
    by (simp_all add: ethers_v6_def ethers_parseUnits_def match_decimal_def is_digit_def)
  from malformed_amount_gives_zero [of ethers_v6 "''1,5''" 6 INVALID_ARGUMENT] a b
  have one: "formatUSDCAmount ethers_v6 ''1,5'' 6 = ''0''" by simp
  have c: "match_decimal ''1.1234567'' = Some (False, ''1'', ''1234567'')"
    and d: "\<not> list_all (\<lambda>c. c = CHR ''0'') (drop 6 ''1234567'')"
    by (simp_all add: match_decimal_def is_digit_def)
  from malformed_amount_gives_zero [where amount' = "''1.1234567''" and decimals = 6
      and negative = False and ?m2.0 = "''1''" and ?m3.0 = "''1234567''"] c d
  have two: "formatUSDCAmount ethers_v6 ''1.1234567'' 6 = ''0''" by blast
  have e: "''15'' \<noteq> []" and f: "list_all is_digit ''15''" and i: "(6 :: nat) \<le> 80"
    and g: "int (digits_value ''15'' * 10 ^ 6) \<le> 2 ^ 511"
    and h: "bigint_toString (- int (digits_value ''15'' * 10 ^ 6)) = ''-15000000''"
    by (simp_all add: is_digit_def digits_value_def digit_val_def bigint_toString_def
        dec.simps digit_char_simps)
  from malformed_amount_gives_zero [where w = "''15''" and decimals = 6] e f i g
  have "formatUSDCAmount ethers_v6 (CHR ''-'' # ''15'') 6
      = bigint_toString (- int (digits_value ''15'' * 10 ^ 6))"
    by blast
  with h have three: "formatUSDCAmount ethers_v6 ''-15'' 6 = ''-15000000''" by simp
  from one two three show ?thesis by blast
qed

text \<open>
  The claim as stated fails on each of its three kinds of input: a non-numeric string
  and a string with seven fraction digits at precision six give the default \<open>0\<close>, and
  a negative value is converted.
\<close>

theorem malformed_amount_gives_zero_counterexample:
  "formatUSDCAmount ethers_v6 ''abc'' 6 = ''0'' \<and>
   formatUSDCAmount ethers_v6 ''1.1234567'' 6 = ''0'' \<and>
   formatUSDCAmount ethers_v6 ''-1.5'' 6 = ''-1500000''"
  by (simp add: codec_defs)

end
